(* ===== verification/Prelude.thy ===== *)
theory Prelude
  imports Main "HOL-Library.Word"
begin

section \<open>Prelude: results, C integers, and the lemmas the components share\<close>

text \<open>
  What every component of the model uses: the fault values that stand for the undefined or
  aborting behaviours of the C++ sources, the result type that carries them and its sequencing,
  C's \<open>int\<close> with its overflow, and generic facts on lists, folds and maps.
  The collection \<open>result_simps\<close> holds the equations of the result type and is what component
  proofs unfold a sequence of fallible steps with.
\<close>

named_theorems result_simps \<open>equations for sequencing fallible steps\<close>

subsection \<open>Faults and results\<close>

text \<open>
  A fault is a behaviour after which the C++ program has no defined continuation: a failed
  \<open>assert\<close>, an access outside an allocated block or through a null pointer, a read of an
  indeterminate value, an overflow of a signed \<open>int\<close>, the \<open>NotReached()\<close> trap, and the two
  violated preconditions of libraries the sources can trip over (closing a handle that is already
  closing, and reading an object before it was created). \<open>OutOfFuel\<close> is the model's own: a
  loop that does not end. Ordinary error returns of the program are not
  faults; they are values of the operation's own result.
\<close>

datatype fault =
    AssertFail
  | OutOfBounds
  | Uninit
  | IntOverflow
  | NotReachedTrap
  | HandleClosed
  | OutOfFuel

type_synonym 'a res = "fault + 'a"

definition bindR :: "'a res \<Rightarrow> ('a \<Rightarrow> 'b res) \<Rightarrow> 'b res" where
  "bindR m f = (case m of Inl e \<Rightarrow> Inl e | Inr x \<Rightarrow> f x)"

definition assertR :: "bool \<Rightarrow> 'a res \<Rightarrow> 'a res" where
  "assertR b k = (if b then k else Inl AssertFail)"

lemma bindR_Inr [simp, result_simps]: "bindR (Inr x) f = f x"
  by (simp add: bindR_def)

lemma bindR_Inl [simp, result_simps]: "bindR (Inl e) f = Inl e"
  by (simp add: bindR_def)

lemma bindR_assoc: "bindR (bindR m f) g = bindR m (\<lambda>x. bindR (f x) g)"
  by (cases m) simp_all

lemma bindR_eq_Inr_iff [result_simps]:
  "bindR m f = Inr y \<longleftrightarrow> (\<exists>x. m = Inr x \<and> f x = Inr y)"
  by (cases m) simp_all

lemma bindR_eq_Inl_iff:
  "bindR m f = Inl e \<longleftrightarrow> m = Inl e \<or> (\<exists>x. m = Inr x \<and> f x = Inl e)"
  by (cases m) simp_all

lemma assertR_True [simp, result_simps]: "b \<Longrightarrow> assertR b k = k"
  by (simp add: assertR_def)

lemma assertR_False [simp, result_simps]: "\<not> b \<Longrightarrow> assertR b k = Inl AssertFail"
  by (simp add: assertR_def)

lemma assertR_eq_Inr_iff [result_simps]: "assertR b k = Inr y \<longleftrightarrow> b \<and> k = Inr y"
  by (simp add: assertR_def)

lemma bindR_cong [fundef_cong]:
  "m = m' \<Longrightarrow> (\<And>x. m' = Inr x \<Longrightarrow> f x = f' x) \<Longrightarrow> bindR m f = bindR m' f'"
  by (cases m') simp_all

subsection \<open>C's int\<close>

text \<open>
  The sources' \<open>int\<close> is 32 bits wide on every platform the build files name. Values are HOL
  integers; an arithmetic result is passed through \<open>c_int\<close>, which is the overflow fault
  outside the range.
\<close>

abbreviation INT_MAX :: int where "INT_MAX \<equiv> 2147483647"
abbreviation INT_MIN :: int where "INT_MIN \<equiv> - 2147483648"

definition c_int :: "int \<Rightarrow> int res" where
  "c_int x = (if INT_MIN \<le> x \<and> x \<le> INT_MAX then Inr x else Inl IntOverflow)"

lemma c_int_in_range [simp]: "INT_MIN \<le> x \<Longrightarrow> x \<le> INT_MAX \<Longrightarrow> c_int x = Inr x"
  by (simp add: c_int_def)

lemma c_int_eq_Inr_iff [result_simps]:
  "c_int x = Inr y \<longleftrightarrow> y = x \<and> INT_MIN \<le> x \<and> x \<le> INT_MAX"
  by (auto simp: c_int_def)

subsection \<open>Lists\<close>

lemma take_all_Some:
  "None \<notin> set xs \<Longrightarrow> map Some (map the xs) = xs"
  by (induction xs) auto

lemma map_Some_inject [simp]: "map Some xs = map Some ys \<longleftrightarrow> xs = ys"
  by (simp add: inj_map_eq_map)

lemma None_notin_map_Some [simp]: "None \<notin> set (map Some xs)"
  by auto

lemma take_add_append:
  "take (m + n) xs = take m xs @ take n (drop m xs)"
  by (simp add: take_add)

lemma concat_snoc: "concat (xss @ [xs]) = concat xss @ xs"
  by simp

lemma shuffles_append_left: "zs \<in> shuffles xs ys \<Longrightarrow> zs @ bs \<in> shuffles (xs @ bs) ys"
proof (induction xs ys arbitrary: zs rule: shuffles.induct)
  case (1 ys)
  show ?case
  proof (cases bs)
    case Nil
    then show ?thesis using 1 by simp
  next
    case (Cons b bs')
    have "ys @ bs \<in> shuffles bs ys" by (induction ys) (simp_all add: Cons_in_shuffles_rightI)
    then show ?thesis using 1 by simp
  qed
next
  case (2 xs)
  then show ?case by simp
next
  case (3 x xs y ys)
  then show ?case by auto
qed

lemma shuffles_append_right: "zs \<in> shuffles xs ys \<Longrightarrow> zs @ bs \<in> shuffles xs (ys @ bs)"
  using shuffles_append_left [of zs ys xs bs] by (simp add: shuffles_commutes)

subsection \<open>Decimal digits\<close>

definition digit_char :: "nat \<Rightarrow> char" where
  "digit_char d = char_of (48 + d)"

lemma of_char_digit: "d < 10 \<Longrightarrow> of_char (digit_char d) = (48 + d :: nat)"
  by (simp add: digit_char_def of_char_of)

subsection \<open>Simulation\<close>

text \<open>
  What a state machine promises that implements an abstract one: every step keeps the invariant and
  is a sequence of abstract steps. All its runs then do.
\<close>

locale simulation =
  fixes inv :: "'s \<Rightarrow> bool"
    and step :: "'s \<Rightarrow> 'e \<Rightarrow> 's \<Rightarrow> bool"
    and abs :: "'s \<Rightarrow> 'a"
    and astep :: "'a \<Rightarrow> 'a \<Rightarrow> bool"
  assumes step_sim: "inv s \<Longrightarrow> step s e s' \<Longrightarrow> inv s' \<and> astep\<^sup>*\<^sup>* (abs s) (abs s')"
begin

lemma run_sim: "(\<lambda>s s'. \<exists>e. step s e s')\<^sup>*\<^sup>* s s' \<Longrightarrow> inv s \<Longrightarrow> inv s' \<and> astep\<^sup>*\<^sup>* (abs s) (abs s')"
proof (induction rule: rtranclp_induct)
  case (step t u)
  then show ?case using step_sim by (metis rtranclp_trans)
qed simp

end

end
