(* ===== verification/CMem.thy ===== *)
theory CMem
  imports Prelude
begin

section \<open>Blocks of C memory\<close>

text \<open>
  The part of the C library that the byte buffers use: \<open>malloc\<close>, \<open>realloc\<close>, \<open>memcpy\<close>
  and \<open>memcmp\<close>, over blocks of cells. A cell is a byte or indeterminate (\<open>None\<close>, what
  \<open>malloc\<close> leaves), a block is a list of cells, and a pointer into it is the block and an
  offset. A null pointer is \<open>None\<close>. Every access outside the block is the fault
  \<open>OutOfBounds\<close>, so a theorem that an operation returns also says that it stays inside its
  allocations.

  Allocation succeeds for every size that is not negative, with a non-null block for size 0 as
  on the C libraries of the supported platforms; a negative \<open>int\<close> becomes a size above every
  address space when converted to \<open>size_t\<close>, for which \<open>malloc\<close> returns null. A copy of
  zero bytes is harmless whatever its pointers are.
\<close>

type_synonym cell = "char option"
type_synonym block = "cell list option"

definition c_malloc :: "int \<Rightarrow> block" where
  "c_malloc n = (if 0 \<le> n then Some (replicate (nat n) None) else None)"

definition c_realloc :: "block \<Rightarrow> int \<Rightarrow> block" where
  "c_realloc b n =
     (if n \<le> 0 then None
      else (let old = (case b of None \<Rightarrow> [] | Some xs \<Rightarrow> xs)
            in Some (take (nat n) old @ replicate (nat n - length old) None)))"

definition c_memcpy :: "block \<Rightarrow> int \<Rightarrow> block \<Rightarrow> int \<Rightarrow> int \<Rightarrow> block res" where
  "c_memcpy dst doff src soff n =
     (if n = 0 then Inr dst
      else case (dst, src) of
        (Some d, Some s) \<Rightarrow>
          if 0 \<le> n \<and> 0 \<le> soff \<and> soff + n \<le> int (length s)
             \<and> 0 \<le> doff \<and> doff + n \<le> int (length d)
          then Inr (Some (take (nat doff) d @ take (nat n) (drop (nat soff) s)
                          @ drop (nat (doff + n)) d))
          else Inl OutOfBounds
      | _ \<Rightarrow> Inl OutOfBounds)"

text \<open>Whether \<open>memcmp\<close> returns 0: every compared cell must hold a byte.\<close>

definition c_memcmp_eq :: "block \<Rightarrow> block \<Rightarrow> int \<Rightarrow> bool res" where
  "c_memcmp_eq p q n =
     (if n = 0 then Inr True
      else case (p, q) of
        (Some xs, Some ys) \<Rightarrow>
          if 0 \<le> n \<and> n \<le> int (length xs) \<and> n \<le> int (length ys)
          then (let us = take (nat n) xs; vs = take (nat n) ys
                in if None \<in> set us \<or> None \<in> set vs then Inl Uninit else Inr (us = vs))
          else Inl OutOfBounds
      | _ \<Rightarrow> Inl OutOfBounds)"

subsection \<open>What the operations promise\<close>

lemma c_malloc_nonneg [simp]: "0 \<le> n \<Longrightarrow> c_malloc n = Some (replicate (nat n) None)"
  by (simp add: c_malloc_def)

lemma c_memcpy_zero [simp]: "c_memcpy dst doff src soff 0 = Inr dst"
  by (simp add: c_memcpy_def)

lemma c_memcpy_ok:
  assumes "0 \<le> soff" "0 \<le> n" "soff + n \<le> int (length s)"
    and "0 \<le> doff" "doff + n \<le> int (length d)"
  shows "c_memcpy (Some d) doff (Some s) soff n =
    Inr (Some (take (nat doff) d @ take (nat n) (drop (nat soff) s) @ drop (nat (doff + n)) d))"
  using assms by (auto simp: c_memcpy_def)

lemma c_memcpy_fresh:
  assumes "0 \<le> soff" "0 \<le> n" "soff + n \<le> int (length s)"
  shows "c_memcpy (c_malloc n) 0 (Some s) soff n = Inr (Some (take (nat n) (drop (nat soff) s)))"
  using assms by (simp add: c_memcpy_ok)

lemma c_memcpy_length:
  "c_memcpy (Some d) doff src soff n = Inr b \<Longrightarrow> \<exists>d'. b = Some d' \<and> length d' = length d"
  by (auto simp: c_memcpy_def split: if_splits option.splits)

lemma c_realloc_grow:
  assumes "length xs \<le> nat n" "0 < n"
  shows "c_realloc (Some xs) n = Some (xs @ replicate (nat n - length xs) None)"
    and "c_realloc None n = Some (replicate (nat n) None)"
  using assms by (simp_all add: c_realloc_def)

lemma c_memcmp_eq_ok:
  assumes "0 \<le> n" "n \<le> int (length xs)" "n \<le> int (length ys)"
    and "None \<notin> set (take (nat n) xs)" "None \<notin> set (take (nat n) ys)"
  shows "c_memcmp_eq (Some xs) (Some ys) n = Inr (take (nat n) xs = take (nat n) ys)"
  using assms by (simp add: c_memcmp_eq_def Let_def)

end
