(* ===== verification/ByteArrays.thy ===== *)
theory ByteArrays
  imports CMem
begin

section \<open>ByteArray\<close>

text \<open>
  The growable buffer of \<open>include/mumble/ByteArray.h\<close> and \<open>src/ByteArray.cpp\<close>. Its three
  members are the record's fields; each member function is one definition with the checks, the
  arithmetic and the calls of the source in the source's order. The representation invariant
  \<open>ba_wf\<close> says that \<open>cap_\<close> is the size of the allocated block and that \<open>len_\<close> lies within it;
  \<open>content\<close> is what the array denotes, the first \<open>len_\<close> cells of the block.
\<close>

record bytearray =
  ba_buf :: block
  ba_len :: int
  ba_cap :: int

definition ByteArray_null :: bytearray where
  "ByteArray_null = \<lparr>ba_buf = None, ba_len = 0, ba_cap = 0\<rparr>"

definition ByteArray_len :: "int \<Rightarrow> bytearray" where
  "ByteArray_len len = \<lparr>ba_buf = c_malloc len, ba_len = len, ba_cap = len\<rparr>"

text \<open>
  The buffer constructor. Its parameter \<open>cap\<close> defaults to -1 in the header. It copies \<open>cap\<close>
  bytes of \<open>buf\<close>, not \<open>len\<close>.
\<close>

definition ByteArray_buf :: "block \<Rightarrow> int \<Rightarrow> int \<Rightarrow> bytearray res" where
  "ByteArray_buf buf len cap =
     (if buf = None then Inr ByteArray_null
      else if cap \<noteq> -1 \<and> cap < len then Inr ByteArray_null
      else (let cap = (if cap = -1 then len else cap)
            in bindR (c_memcpy (c_malloc cap) 0 buf 0 cap) (\<lambda>b.
               Inr \<lparr>ba_buf = b, ba_len = len, ba_cap = cap\<rparr>)))"

definition ByteArray_copy :: "bytearray \<Rightarrow> bytearray res" where
  "ByteArray_copy ba =
     (if ba_buf ba \<noteq> None
      then bindR (c_memcpy (c_malloc (ba_cap ba)) 0 (ba_buf ba) 0 (ba_cap ba)) (\<lambda>b.
           Inr \<lparr>ba_buf = b, ba_len = ba_len ba, ba_cap = ba_cap ba\<rparr>)
      else Inr ByteArray_null)"

text \<open>The destructor hands \<open>buf_\<close> to \<open>free\<close>: the block it releases.\<close>

definition ByteArray_destroy :: "bytearray \<Rightarrow> block" where
  "ByteArray_destroy ba = ba_buf ba"

text \<open>
  \<open>operator=\<close> takes its argument by value (a copy), swaps the members with it and destroys it:
  the new value of \<open>*this\<close> and the block that the destructor of the argument releases.
\<close>

definition ByteArray_assign :: "bytearray \<Rightarrow> bytearray \<Rightarrow> (bytearray \<times> block) res" where
  "ByteArray_assign this ba =
     bindR (ByteArray_copy ba) (\<lambda>tmp.
       let (this', tmp') = (tmp, this)
       in Inr (this', ByteArray_destroy tmp'))"

definition IsNull :: "bytearray \<Rightarrow> bool" where
  "IsNull ba \<longleftrightarrow> ba_buf ba = None"

definition Capacity :: "bytearray \<Rightarrow> int" where
  "Capacity ba = ba_cap ba"

definition Length :: "bytearray \<Rightarrow> int" where
  "Length ba = ba_len ba"

definition ConstData :: "bytearray \<Rightarrow> block" where
  "ConstData ba = ba_buf ba"

text \<open>
  \<open>Data\<close> returns the same pointer for writing: what a caller stores through it replaces the
  cells of the block, which keeps its size.
\<close>

definition Data_write :: "bytearray \<Rightarrow> int \<Rightarrow> cell list \<Rightarrow> bytearray res" where
  "Data_write ba off bytes =
     bindR (c_memcpy (ba_buf ba) off (Some bytes) 0 (int (length bytes))) (\<lambda>b.
       Inr (ba\<lparr>ba_buf := b\<rparr>))"

definition Slice :: "bytearray \<Rightarrow> int \<Rightarrow> int \<Rightarrow> bytearray res" where
  "Slice ba off len =
     bindR (c_int (ba_len ba - off)) (\<lambda>remain.
       let len = (if len = -1 then remain else len)
       in assertR (len \<le> remain) (
            bindR (c_memcpy (c_malloc len) 0 (ba_buf ba) off remain) (\<lambda>tmp.
              ByteArray_buf tmp remain (-1))))"

definition Append :: "bytearray \<Rightarrow> bytearray \<Rightarrow> bytearray res" where
  "Append ba chunk =
     bindR (c_int (ba_cap ba - ba_len ba)) (\<lambda>remain.
       bindR
         (if remain < Length chunk
          then bindR (c_int (Length ba + Length chunk)) (\<lambda>larger_cap.
               Inr (ba\<lparr>ba_buf := c_realloc (ba_buf ba) larger_cap, ba_cap := larger_cap\<rparr>))
          else Inr ba) (\<lambda>ba.
       bindR (c_memcpy (ba_buf ba) (ba_len ba) (ConstData chunk) 0 (Length chunk)) (\<lambda>b.
       bindR (c_int (ba_len ba + Length chunk)) (\<lambda>len'.
         Inr (ba\<lparr>ba_buf := b, ba_len := len'\<rparr>)))))"

text \<open>
  \<open>Append\<close> takes its chunk by reference, and the two arrays may be the same object. Over a
  store of arrays every access of the source to \<open>chunk\<close> reads the store as it is at that point.
\<close>

type_synonym ba_store = "nat \<Rightarrow> bytearray"

definition Append_at :: "ba_store \<Rightarrow> nat \<Rightarrow> nat \<Rightarrow> ba_store res" where
  "Append_at \<sigma> this chunk =
     bindR (c_int (ba_cap (\<sigma> this) - ba_len (\<sigma> this))) (\<lambda>remain.
       bindR
         (if remain < Length (\<sigma> chunk)
          then bindR (c_int (Length (\<sigma> this) + Length (\<sigma> chunk))) (\<lambda>larger_cap.
               Inr (\<sigma>(this := (\<sigma> this)\<lparr>ba_buf := c_realloc (ba_buf (\<sigma> this)) larger_cap,
                                       ba_cap := larger_cap\<rparr>)))
          else Inr \<sigma>) (\<lambda>\<sigma>.
       bindR (c_memcpy (ba_buf (\<sigma> this)) (ba_len (\<sigma> this))
                       (ConstData (\<sigma> chunk)) 0 (Length (\<sigma> chunk))) (\<lambda>b.
       let \<sigma> = \<sigma>(this := (\<sigma> this)\<lparr>ba_buf := b\<rparr>) in
       bindR (c_int (ba_len (\<sigma> this) + Length (\<sigma> chunk))) (\<lambda>len'.
         Inr (\<sigma>(this := (\<sigma> this)\<lparr>ba_len := len'\<rparr>))))))"

definition Truncate :: "bytearray \<Rightarrow> int \<Rightarrow> bytearray res" where
  "Truncate ba len = assertR (len \<le> ba_cap ba) (Inr (ba\<lparr>ba_len := len\<rparr>))"

definition Equal :: "bytearray \<Rightarrow> bytearray \<Rightarrow> bool res" where
  "Equal ba other =
     (if Length ba \<noteq> Length other then Inr False
      else if Length ba = 0 \<and> Length other = 0 then Inr (IsNull ba = IsNull other)
      else c_memcmp_eq (ConstData ba) (ConstData other) (Length ba))"

definition operator_eq :: "bytearray \<Rightarrow> bytearray \<Rightarrow> bool res" where
  "operator_eq ba other = Equal ba other"

definition operator_ne :: "bytearray \<Rightarrow> bytearray \<Rightarrow> bool res" where
  "operator_ne ba other = bindR (Equal ba other) (\<lambda>b. Inr (\<not> b))"

subsection \<open>Representation invariant and denotation\<close>

definition cells :: "bytearray \<Rightarrow> cell list" where
  "cells ba = (case ba_buf ba of None \<Rightarrow> [] | Some xs \<Rightarrow> xs)"

definition content :: "bytearray \<Rightarrow> cell list" where
  "content ba = take (nat (ba_len ba)) (cells ba)"

definition ba_wf :: "bytearray \<Rightarrow> bool" where
  "ba_wf ba \<longleftrightarrow> int (length (cells ba)) = ba_cap ba
     \<and> 0 \<le> ba_len ba \<and> ba_len ba \<le> ba_cap ba \<and> ba_cap ba \<le> INT_MAX"

text \<open>Every cell of the content holds a byte.\<close>

definition initialised :: "bytearray \<Rightarrow> bool" where
  "initialised ba \<longleftrightarrow> None \<notin> set (content ba)"

subsection \<open>Basic facts\<close>

lemmas ba_defs = ba_wf_def content_def cells_def Length_def Capacity_def ConstData_def IsNull_def

lemma length_content: "ba_wf ba \<Longrightarrow> int (length (content ba)) = ba_len ba"
  by (auto simp: ba_defs split: option.splits)

lemma ba_wf_null [simp, intro]: "ba_wf ByteArray_null"
  by (simp add: ba_defs ByteArray_null_def)

lemma content_null [simp]: "content ByteArray_null = []"
  by (simp add: ba_defs ByteArray_null_def)

lemma ba_wf_len: "0 \<le> n \<Longrightarrow> n \<le> INT_MAX \<Longrightarrow> ba_wf (ByteArray_len n)"
  by (simp add: ba_defs ByteArray_len_def)

lemma content_len: "0 \<le> n \<Longrightarrow> content (ByteArray_len n) = replicate (nat n) None"
  by (simp add: ba_defs ByteArray_len_def)

lemma ba_wf_bufD: "ba_wf ba \<Longrightarrow> ba_buf ba = None \<Longrightarrow> ba_len ba = 0 \<and> ba_cap ba = 0"
  by (simp add: ba_defs)

lemma ba_wf_Some:
  "ba_buf ba = Some xs \<Longrightarrow>
   ba_wf ba \<longleftrightarrow> int (length xs) = ba_cap ba \<and> 0 \<le> ba_len ba \<and> ba_len ba \<le> ba_cap ba
     \<and> ba_cap ba \<le> INT_MAX"
  by (simp add: ba_defs)

lemma ByteArray_buf_default:
  assumes "0 \<le> n" "n \<le> int (length xs)"
  shows "ByteArray_buf (Some xs) n (-1) =
    Inr \<lparr>ba_buf = Some (take (nat n) xs), ba_len = n, ba_cap = n\<rparr>"
  using assms c_memcpy_fresh [of 0 n xs] by (simp add: ByteArray_buf_def Let_def del: c_malloc_nonneg)

lemma ByteArray_buf_cap:
  assumes "0 \<le> n" "n \<le> c" "c \<le> int (length xs)"
  shows "ByteArray_buf (Some xs) n c =
    Inr \<lparr>ba_buf = Some (take (nat c) xs), ba_len = n, ba_cap = c\<rparr>"
  using assms c_memcpy_fresh [of 0 c xs] by (simp add: ByteArray_buf_def Let_def del: c_malloc_nonneg)

lemma ByteArray_copy_wf: "ba_wf ba \<Longrightarrow> ByteArray_copy ba = Inr ba"
  using c_memcpy_fresh [of 0 "ba_cap ba" "cells ba"]
  by (cases ba) (auto simp: ByteArray_copy_def ByteArray_null_def ba_defs
      simp del: c_malloc_nonneg split: option.splits)

lemma Data_write_wf:
  assumes "ba_wf ba" "Data_write ba off bytes = Inr ba'"
  shows "ba_wf ba'"
  using assms
  by (auto simp: Data_write_def ba_defs result_simps c_memcpy_def split: option.splits if_splits)

lemma Truncate_wf:
  "ba_wf ba \<Longrightarrow> 0 \<le> n \<Longrightarrow> Truncate ba n = Inr ba' \<Longrightarrow> ba_wf ba'"
  by (auto simp: Truncate_def ba_defs result_simps split: option.splits)

subsection \<open>Append\<close>

text \<open>The copy step of \<open>Append\<close>, on an array that has room for the chunk.\<close>

lemma memcpy_tail:
  assumes "ba_wf a" "ba_wf c" "ba_len a + ba_len c \<le> ba_cap a"
  obtains b where
    "c_memcpy (ba_buf a) (ba_len a) (ba_buf c) 0 (ba_len c) = Inr b"
    "ba_wf (a\<lparr>ba_buf := b, ba_len := ba_len a + ba_len c\<rparr>)"
    "content (a\<lparr>ba_buf := b, ba_len := ba_len a + ba_len c\<rparr>) = content a @ content c"
proof (cases "ba_len c = 0")
  case True
  with assms that [of "ba_buf a"] show thesis
    by (auto simp: ba_defs split: option.splits)
next
  case False
  with assms obtain xs ys where xs: "ba_buf a = Some xs" and ys: "ba_buf c = Some ys"
    by (cases "ba_buf a"; cases "ba_buf c") (auto simp: ba_defs)
  let ?b = "take (nat (ba_len a)) xs @ take (nat (ba_len c)) ys
            @ drop (nat (ba_len a + ba_len c)) xs"
  let ?r = "a\<lparr>ba_buf := Some ?b, ba_len := ba_len a + ba_len c\<rparr>"
  have la: "int (length xs) = ba_cap a" "0 \<le> ba_len a" "ba_cap a \<le> INT_MAX"
    and lc: "0 \<le> ba_len c" "ba_len c \<le> int (length ys)"
    using assms xs ys by (simp_all add: ba_wf_Some)
  have "c_memcpy (ba_buf a) (ba_len a) (ba_buf c) 0 (ba_len c) = Inr (Some ?b)"
    using assms(3) la lc xs ys by (simp add: c_memcpy_ok)
  moreover have "length ?b = length xs"
    using assms(3) la lc by simp
  then have "ba_wf ?r"
    using assms(3) la lc by (simp add: ba_wf_Some del: length_append)
  moreover have "nat (ba_len a + ba_len c) = nat (ba_len a) + nat (ba_len c)"
    using la lc by (simp add: nat_add_distrib)
  then have "content ?r = content a @ content c"
    using assms(3) la lc xs ys by (simp add: content_def cells_def min_absorb1)
  ultimately show thesis by (rule that)
qed

lemma realloc_room:
  assumes "ba_wf a" "ba_cap a < n" "n \<le> INT_MAX"
  defines "a' \<equiv> a\<lparr>ba_buf := c_realloc (ba_buf a) n, ba_cap := n\<rparr>"
  shows "ba_wf a'" "content a' = content a" "ba_cap a' = n" "ba_len a' = ba_len a"
proof -
  have len: "length (cells a) = nat (ba_cap a)" and "0 \<le> ba_cap a" "0 \<le> ba_len a" "ba_len a \<le> ba_cap a"
    using assms(1) by (auto simp: ba_wf_def)
  have b: "ba_buf a' = Some (cells a @ replicate (nat n - nat (ba_cap a)) None)"
    using assms(2) len \<open>0 \<le> ba_cap a\<close>
    by (simp add: a'_def c_realloc_def cells_def Let_def split: option.splits)
  show "ba_cap a' = n" "ba_len a' = ba_len a" by (simp_all add: a'_def)
  then show "ba_wf a'" using b len assms(2,3) \<open>0 \<le> ba_cap a\<close> \<open>0 \<le> ba_len a\<close> \<open>ba_len a \<le> ba_cap a\<close>
    by (simp add: ba_wf_Some)
  have "nat (ba_len a) \<le> length (cells a)" using len \<open>ba_len a \<le> ba_cap a\<close> by simp
  then show "content a' = content a"
    using b by (simp add: content_def cells_def [of a'] \<open>ba_len a' = ba_len a\<close>)
qed

lemma Append_spec:
  assumes "ba_wf a" "ba_wf c" "ba_len a + ba_len c \<le> INT_MAX"
  obtains r where "Append a c = Inr r" "ba_wf r" "content r = content a @ content c"
    "ba_len r = ba_len a + ba_len c"
    "ba_cap r = max (ba_cap a) (ba_len a + ba_len c)"
proof -
  have rng: "INT_MIN \<le> ba_cap a - ba_len a" "ba_cap a - ba_len a \<le> INT_MAX"
    "INT_MIN \<le> ba_len a + ba_len c" "0 \<le> ba_len a" "0 \<le> ba_len c" "ba_len a \<le> ba_cap a"
    using assms by (auto simp: ba_wf_def)
  show thesis
  proof (cases "ba_cap a - ba_len a < ba_len c")
    case True
    define n a' where "n = ba_len a + ba_len c"
      and "a' = a\<lparr>ba_buf := c_realloc (ba_buf a) n, ba_cap := n\<rparr>"
    have a': "ba_wf a'" "content a' = content a" "ba_cap a' = n" "ba_len a' = ba_len a"
      using realloc_room [of a n] assms(1,3) True by (auto simp: a'_def n_def)
    from memcpy_tail [of a' c] a' assms(2) obtain b where
      b: "c_memcpy (ba_buf a') (ba_len a) (ba_buf c) 0 (ba_len c) = Inr b"
      "ba_wf (a'\<lparr>ba_buf := b, ba_len := n\<rparr>)"
      "content (a'\<lparr>ba_buf := b, ba_len := n\<rparr>) = content a @ content c"
      by (auto simp: n_def)
    have "Append a c = Inr (a'\<lparr>ba_buf := b, ba_len := n\<rparr>)"
      using True rng assms(3) b(1) by (simp add: Append_def Length_def ConstData_def a'_def n_def)
    then show thesis using that [of "a'\<lparr>ba_buf := b, ba_len := n\<rparr>"] b a' True
      by (simp add: n_def max_def)
  next
    case False
    from memcpy_tail [of a c] False assms obtain b where
      b: "c_memcpy (ba_buf a) (ba_len a) (ba_buf c) 0 (ba_len c) = Inr b"
      "ba_wf (a\<lparr>ba_buf := b, ba_len := ba_len a + ba_len c\<rparr>)"
      "content (a\<lparr>ba_buf := b, ba_len := ba_len a + ba_len c\<rparr>) = content a @ content c"
      by auto
    have "Append a c = Inr (a\<lparr>ba_buf := b, ba_len := ba_len a + ba_len c\<rparr>)"
      using False rng assms(3) b(1) by (simp add: Append_def Length_def ConstData_def)
    then show thesis
      using that [of "a\<lparr>ba_buf := b, ba_len := ba_len a + ba_len c\<rparr>"] b False
      by (simp add: max_def)
  qed
qed

lemma Append_at_distinct:
  assumes "i \<noteq> j"
  shows "Append_at \<sigma> i j = bindR (Append (\<sigma> i) (\<sigma> j)) (\<lambda>r. Inr (\<sigma>(i := r)))"
  using assms by (auto simp: Append_at_def Append_def Length_def ConstData_def Let_def bindR_def c_int_def
      split: sum.splits)

lemma Append_at_self:
  assumes "ba_wf (\<sigma> i)" "2 * ba_len (\<sigma> i) \<le> INT_MAX"
  obtains r where "Append_at \<sigma> i i = Inr (\<sigma>(i := r))" "ba_wf r"
    "content r = content (\<sigma> i) @ content (\<sigma> i)"
proof -
  let ?a = "\<sigma> i" let ?l = "ba_len ?a" let ?n = "?l + ?l"
  have rng: "INT_MIN \<le> ba_cap ?a - ?l" "ba_cap ?a - ?l \<le> INT_MAX" "?n \<le> INT_MAX"
    "INT_MIN \<le> ?n" "0 \<le> ?l" "?l \<le> ba_cap ?a"
    using assms by (auto simp: ba_wf_def)
  show thesis
  proof (cases "ba_cap ?a - ?l < ?l")
    case True
    define a' where "a' = ?a\<lparr>ba_buf := c_realloc (ba_buf ?a) ?n, ba_cap := ?n\<rparr>"
    have a': "ba_wf a'" "content a' = content ?a" "ba_cap a' = ?n" "ba_len a' = ?l"
      using realloc_room [of ?a ?n] assms(1) rng True by (auto simp: a'_def)
    from memcpy_tail [of a' a'] a' obtain b where
      b: "c_memcpy (ba_buf a') ?l (ba_buf a') 0 ?l = Inr b"
      "ba_wf (a'\<lparr>ba_buf := b, ba_len := ?n\<rparr>)"
      "content (a'\<lparr>ba_buf := b, ba_len := ?n\<rparr>) = content ?a @ content ?a"
      by auto
    have "Append_at \<sigma> i i = Inr (\<sigma>(i := a'\<lparr>ba_buf := b, ba_len := ?n\<rparr>))"
      using True rng b(1) by (simp add: Append_at_def Length_def ConstData_def a'_def Let_def)
    with b that show thesis by blast
  next
    case False
    from memcpy_tail [of ?a ?a] False assms obtain b where
      b: "c_memcpy (ba_buf ?a) ?l (ba_buf ?a) 0 ?l = Inr b"
      "ba_wf (?a\<lparr>ba_buf := b, ba_len := ?n\<rparr>)"
      "content (?a\<lparr>ba_buf := b, ba_len := ?n\<rparr>) = content ?a @ content ?a"
      by auto
    have "Append_at \<sigma> i i = Inr (\<sigma>(i := ?a\<lparr>ba_buf := b, ba_len := ?n\<rparr>))"
      using False rng b(1) by (simp add: Append_at_def Length_def ConstData_def Let_def)
    with b that show thesis by blast
  qed
qed

subsection \<open>Slice\<close>

lemma Slice_rest:
  assumes "ba_wf ba" "0 \<le> off" "off \<le> ba_len ba"
  shows "Slice ba off (-1) = Inr \<lparr>ba_buf = Some (drop (nat off) (content ba)),
    ba_len = ba_len ba - off, ba_cap = ba_len ba - off\<rparr>"
proof (cases "ba_buf ba")
  case None
  with ba_wf_bufD [OF assms(1)] have "ba_len ba = 0" by simp
  moreover from this assms(2,3) have "off = 0" by simp
  ultimately show ?thesis
    using None by (simp add: Slice_def ByteArray_buf_def content_def)
next
  case (Some xs)
  let ?n = "ba_len ba - off"
  have wf: "int (length xs) = ba_cap ba" "ba_len ba \<le> ba_cap ba" "ba_cap ba \<le> INT_MAX"
    using assms(1) Some by (simp_all add: ba_wf_Some)
  have "c_memcpy (c_malloc ?n) 0 (ba_buf ba) off ?n
      = Inr (Some (take (nat ?n) (drop (nat off) xs)))"
    using assms wf Some by (simp add: c_memcpy_fresh del: c_malloc_nonneg)
  moreover have "take (nat ?n) (drop (nat off) xs) = drop (nat off) (content ba)"
    using assms Some by (simp add: content_def cells_def drop_take nat_diff_distrib)
  moreover have "length (drop (nat off) (content ba)) = nat ?n"
    using assms wf length_content [OF assms(1)] by (simp add: nat_diff_distrib)
  ultimately show ?thesis
    using assms wf by (simp add: Slice_def ByteArray_buf_default del: c_malloc_nonneg)
qed

lemma Slice_explicit:
  assumes "ba_wf ba" "0 \<le> off" "off \<le> ba_len ba" "0 \<le> len" 
  shows "Slice ba off len =
    (if len > ba_len ba - off then Inl AssertFail
     else if len < ba_len ba - off then Inl OutOfBounds
     else Slice ba off (-1))"
proof -
  let ?n = "ba_len ba - off"
  have n: "c_int ?n = Inr ?n" "len \<noteq> - 1"
    using assms by (auto simp: ba_wf_def)
  consider "?n < len" | "len = ?n" | "len < ?n" by linarith
  then show ?thesis
  proof cases
    case 1
    with n show ?thesis by (simp add: Slice_def)
  next
    case 2
    with n show ?thesis by (simp add: Slice_def Let_def)
  next
    case 3
    then have "c_memcpy (c_malloc len) 0 (ba_buf ba) off ?n = Inl OutOfBounds"
      using assms(2,4) by (simp add: c_memcpy_def split: option.split)
    with 3 n show ?thesis by (simp add: Slice_def del: c_malloc_nonneg)
  qed
qed

subsection \<open>Equality\<close>

lemma Equal_spec:
  assumes "ba_wf a" "ba_wf b" "initialised a" "initialised b"
  shows "Equal a b = Inr (content a = content b \<and> (content a = [] \<longrightarrow> IsNull a = IsNull b))"
proof (cases "ba_len a = ba_len b \<and> ba_len a \<noteq> 0")
  case False
  then show ?thesis
    using length_content [OF assms(1)] length_content [OF assms(2)]
    by (auto simp: Equal_def Length_def)
next
  case True
  with assms(1,2) obtain xs ys where xs: "ba_buf a = Some xs" and ys: "ba_buf b = Some ys"
    by (metis ba_wf_bufD option.exhaust)
  have "c_memcmp_eq (Some xs) (Some ys) (ba_len a) =
      Inr (take (nat (ba_len a)) xs = take (nat (ba_len a)) ys)"
    using assms True xs ys
    by (intro c_memcmp_eq_ok) (simp_all add: ba_wf_Some initialised_def content_def cells_def)
  moreover have "content a \<noteq> []"
    using True assms(1) length_content [OF assms(1)] by (auto simp: ba_wf_def)
  ultimately show ?thesis
    using True xs ys by (simp add: Equal_def Length_def ConstData_def content_def cells_def)
qed

lemma Slice_wf:
  assumes "ba_wf ba" "Slice ba off len = Inr r"
  shows "ba_wf r"
proof -
  from assms(2) obtain tmp where
    m: "c_memcpy (c_malloc (if len = -1 then ba_len ba - off else len)) 0 (ba_buf ba) off
          (ba_len ba - off) = Inr tmp"
    and r: "ByteArray_buf tmp (ba_len ba - off) (-1) = Inr r"
    and rng: "ba_len ba - off \<le> INT_MAX"
    by (auto simp: Slice_def Let_def result_simps)
  show ?thesis
  proof (cases tmp)
    case None
    with r show ?thesis by (auto simp: ByteArray_buf_def)
  next
    case (Some xs)
    have n: "0 \<le> ba_len ba - off \<and> ba_len ba - off \<le> int (length xs)"
      using m Some by (auto simp: c_memcpy_def split: if_splits option.splits)
    then have "r = \<lparr>ba_buf = Some (take (nat (ba_len ba - off)) xs),
        ba_len = ba_len ba - off, ba_cap = ba_len ba - off\<rparr>"
      using r Some ByteArray_buf_default by simp
    with n rng show ?thesis by (auto simp: ba_wf_Some min_def)
  qed
qed

lemma ByteArray_buf_wf:
  assumes "ByteArray_buf b n c = Inr r" "0 \<le> n" "n \<le> INT_MAX" "c \<le> INT_MAX"
  shows "ba_wf r"
  using assms
  by (auto simp: ByteArray_buf_def Let_def result_simps c_memcpy_def ba_wf_def cells_def
        ByteArray_null_def c_malloc_def split: if_splits option.splits)

subsection \<open>Arrays a caller can obtain\<close>

text \<open>
  Every array built from the constructors by the member functions, whenever the operation
  returns. Lengths given by the caller lie in the range of a C \<open>int\<close> and are not negative.
\<close>

inductive obtainable :: "bytearray \<Rightarrow> bool" where
  ob_null: "obtainable ByteArray_null"
| ob_len: "0 \<le> n \<Longrightarrow> n \<le> INT_MAX \<Longrightarrow> obtainable (ByteArray_len n)"
| ob_buf: "0 \<le> n \<Longrightarrow> n \<le> INT_MAX \<Longrightarrow> c \<le> INT_MAX \<Longrightarrow> ByteArray_buf b n c = Inr r
    \<Longrightarrow> obtainable r"
| ob_copy: "obtainable a \<Longrightarrow> ByteArray_copy a = Inr r \<Longrightarrow> obtainable r"
| ob_assign: "obtainable a \<Longrightarrow> obtainable b \<Longrightarrow> ByteArray_assign a b = Inr (r, freed)
    \<Longrightarrow> obtainable r"
| ob_write: "obtainable a \<Longrightarrow> Data_write a off bytes = Inr r \<Longrightarrow> obtainable r"
| ob_slice: "obtainable a \<Longrightarrow> Slice a off n = Inr r \<Longrightarrow> obtainable r"
| ob_append: "obtainable a \<Longrightarrow> obtainable c \<Longrightarrow> Append a c = Inr r \<Longrightarrow> obtainable r"
| ob_truncate: "obtainable a \<Longrightarrow> 0 \<le> n \<Longrightarrow> Truncate a n = Inr r \<Longrightarrow> obtainable r"

lemma Append_wf:
  assumes "ba_wf a" "ba_wf c" "Append a c = Inr r"
  shows "ba_wf r"
proof -
  have "ba_len a + ba_len c \<le> INT_MAX"
    using assms by (auto simp: Append_def Length_def result_simps split: if_splits)
  from Append_spec [OF assms(1,2) this] assms(3) show ?thesis by auto
qed

lemma ByteArray_assign_wf:
  "ba_wf b \<Longrightarrow> ByteArray_assign a b = Inr (b, ba_buf a)"
  by (simp add: ByteArray_assign_def ByteArray_copy_wf ByteArray_destroy_def)

lemma obtainable_wf_aux: "obtainable a \<Longrightarrow> ba_wf a"
  by (induction rule: obtainable.induct)
     (auto simp: ByteArray_copy_wf ByteArray_assign_wf intro: ba_wf_len ByteArray_buf_wf
       Data_write_wf Slice_wf Append_wf Truncate_wf)

subsection \<open>Properties\<close>

text \<open>C23: Every array that the constructors and member functions return satisfies the
  representation invariant: the capacity is the size of the allocated block and the length lies
  between 0 and the capacity.\<close>

theorem obtainable_wf:
  "obtainable a \<Longrightarrow> ba_wf a"
  by (rule obtainable_wf_aux)

definition hello :: "cell list" where
  "hello = map Some ''hello''"

theorem obtainable_wf_witness:
  "ba_wf \<lparr>ba_buf = Some hello, ba_len = 2, ba_cap = 5\<rparr>"
proof (rule obtainable_wf)
  have "obtainable \<lparr>ba_buf = Some hello, ba_len = 5, ba_cap = 5\<rparr>"
    by (rule ob_buf [of 5 "-1" "Some hello"])
       (simp_all add: ByteArray_buf_default hello_def)
  then show "obtainable \<lparr>ba_buf = Some hello, ba_len = 2, ba_cap = 5\<rparr>"
    by (rule ob_truncate [of _ 2]) (simp_all add: Truncate_def)
qed

text \<open>C14: Appending an array to another whose lengths fit an \<open>int\<close> together returns an array
  whose content is the concatenation; the block is only enlarged when the chunk does not fit.\<close>

theorem Append_concatenates:
  assumes "ba_wf a" "ba_wf c" "ba_len a + ba_len c \<le> INT_MAX"
  shows "\<exists>r. Append a c = Inr r \<and> ba_wf r \<and> content r = content a @ content c
    \<and> ba_cap r = max (ba_cap a) (ba_len a + ba_len c)"
  using Append_spec [OF assms] by metis

theorem Append_concatenates_witness:
  "\<exists>r. Append \<lparr>ba_buf = Some hello, ba_len = 2, ba_cap = 5\<rparr>
         \<lparr>ba_buf = Some hello, ba_len = 4, ba_cap = 5\<rparr> = Inr r
     \<and> content r = map Some ''hehell''"
  using Append_concatenates [of "\<lparr>ba_buf = Some hello, ba_len = 2, ba_cap = 5\<rparr>"
      "\<lparr>ba_buf = Some hello, ba_len = 4, ba_cap = 5\<rparr>"]
  by (auto simp: ba_wf_Some hello_def content_def cells_def)

text \<open>C29: Appending an array to itself, where the chunk aliases the array that is being
  reallocated and written, doubles its content.\<close>

theorem Append_self_doubles:
  assumes "ba_wf (\<sigma> i)" "2 * ba_len (\<sigma> i) \<le> INT_MAX"
  shows "\<exists>r. Append_at \<sigma> i i = Inr (\<sigma>(i := r)) \<and> ba_wf r
    \<and> content r = content (\<sigma> i) @ content (\<sigma> i)"
  using Append_at_self [of \<sigma> i, OF assms] by metis

theorem Append_self_doubles_witness:
  "\<exists>r. Append_at (\<lambda>_. \<lparr>ba_buf = Some hello, ba_len = 5, ba_cap = 5\<rparr>) 0 0 =
         Inr ((\<lambda>_. \<lparr>ba_buf = Some hello, ba_len = 5, ba_cap = 5\<rparr>)(0 := r))
     \<and> content r = map Some ''hellohello''"
  using Append_self_doubles [of "\<lambda>_. \<lparr>ba_buf = Some hello, ba_len = 5, ba_cap = 5\<rparr>" 0]
  by (auto simp: ba_wf_Some hello_def content_def cells_def)

text \<open>C21: \<open>Slice\<close> with the default length returns the rest of the content from the offset. With
  an explicit length that is too large it fails its assertion, and with one that is smaller than
  the rest it writes the whole rest past the end of a block of the requested size: it never
  returns the requested part.\<close>

theorem Slice_branches:
  assumes "ba_wf ba" "0 \<le> off" "off \<le> ba_len ba" "0 \<le> n"
  shows "Slice ba off (-1) = Inr \<lparr>ba_buf = Some (drop (nat off) (content ba)),
           ba_len = ba_len ba - off, ba_cap = ba_len ba - off\<rparr>
    \<and> Slice ba off n =
           (if n > ba_len ba - off then Inl AssertFail
            else if n < ba_len ba - off then Inl OutOfBounds
            else Slice ba off (-1))"
  using Slice_rest [OF assms(1-3)] Slice_explicit [OF assms] by simp_all

theorem Slice_branches_witness:
  "Slice \<lparr>ba_buf = Some hello, ba_len = 5, ba_cap = 5\<rparr> 1 (-1) =
     Inr \<lparr>ba_buf = Some (map Some ''ello''), ba_len = 4, ba_cap = 4\<rparr>
   \<and> Slice \<lparr>ba_buf = Some hello, ba_len = 5, ba_cap = 5\<rparr> 1 2 = Inl OutOfBounds"
  using Slice_branches [of "\<lparr>ba_buf = Some hello, ba_len = 5, ba_cap = 5\<rparr>" 1 2]
  by (simp add: ba_wf_Some hello_def content_def cells_def)

text \<open>\<open>Equal\<close> decides equality of the contents, except that an empty array only equals one
  that agrees with it on being null; the capacities do not matter.\<close>

theorem Equal_decides:
  assumes "ba_wf a" "ba_wf b" "initialised a" "initialised b"
  shows "Equal a b = Inr (content a = content b \<and> (content a = [] \<longrightarrow> IsNull a = IsNull b))"
  by (rule Equal_spec [OF assms])

theorem Equal_decides_witness:
  "Equal \<lparr>ba_buf = Some hello, ba_len = 2, ba_cap = 5\<rparr>
     \<lparr>ba_buf = Some (map Some ''help''), ba_len = 2, ba_cap = 4\<rparr> = Inr True"
  using Equal_decides [of "\<lparr>ba_buf = Some hello, ba_len = 2, ba_cap = 5\<rparr>"
      "\<lparr>ba_buf = Some (map Some ''help''), ba_len = 2, ba_cap = 4\<rparr>"]
  by (simp add: ba_wf_Some hello_def content_def cells_def initialised_def numeral_2_eq_2)

text \<open>The buffer constructor given a capacity above the size of the caller's buffer reads
  past the end of that buffer, also when the length it was given is the buffer's own.\<close>

theorem ByteArray_buf_overread:
  assumes "0 \<le> n" "n \<le> int (length xs)" "int (length xs) < c"
  shows "ByteArray_buf (Some xs) n c = Inl OutOfBounds"
  using assms by (simp add: ByteArray_buf_def c_memcpy_def Let_def c_malloc_def)

theorem ByteArray_buf_overread_witness:
  "ByteArray_buf (Some hello) 5 50 = Inl OutOfBounds"
  by (rule ByteArray_buf_overread) (simp_all add: hello_def)

end
