(* ===== verification/UVBio.thy ===== *)
theory UVBio
  imports ByteArrays
begin

unbundle bit_operations_syntax

section \<open>UVBio: the OpenSSL BIO over a libuv stream\<close>

text \<open>
  \<open>src/UVBio.h\<close> and \<open>src/UVBio.cpp\<close>: a queue of the buffers received from the network, read
  by OpenSSL through the callbacks of a \<open>BIO_METHOD\<close>. The \<open>BIO\<close> structure is the record
  \<open>bio\<close> with the four fields the callbacks touch; its \<open>ptr\<close> is the \<open>UVBioState\<close>, the record
  \<open>uvbio_state\<close>. The bits \<open>BIO_set_retry_read\<close> sets are the parameter \<open>retry_read\<close>, and
  the outcome of \<open>uv_write\<close> is a parameter of \<open>UVBio_Write\<close>.

  The last part states what the TLS connection relies on, as the locale \<open>byte_channel\<close>: what is
  put in comes out, in order and complete, however the reads cut it up.
\<close>

record uvbio_state =
  bufs :: "bytearray list"

record bio =
  bio_init :: int
  bio_num :: int
  bio_ptr :: "uvbio_state option"
  bio_flags :: "32 word"

text \<open>The constructor of \<open>UVBioState\<close>: the list of buffers starts empty.\<close>

definition UVBioState_new :: uvbio_state where
  "UVBioState_new = \<lparr>bufs = []\<rparr>"

definition PutNewBuffer :: "bytearray \<Rightarrow> uvbio_state \<Rightarrow> uvbio_state" where
  "PutNewBuffer ba st = st\<lparr>bufs := bufs st @ [ba]\<rparr>"

definition PutOldBuffer :: "bytearray \<Rightarrow> uvbio_state \<Rightarrow> uvbio_state" where
  "PutOldBuffer ba st = st\<lparr>bufs := ba # bufs st\<rparr>"

definition HasBuffers :: "uvbio_state \<Rightarrow> bool" where
  "HasBuffers st \<longleftrightarrow> length (bufs st) > 0"

definition GetBuffer :: "uvbio_state \<Rightarrow> (bytearray \<times> uvbio_state) res" where
  "GetBuffer st =
     assertR (length (bufs st) > 0)
       (let front = hd (bufs st) in Inr (front, st\<lparr>bufs := tl (bufs st)\<rparr>))"

subsection \<open>The BIO callbacks\<close>

definition UVBio_Create :: "bio \<Rightarrow> int \<times> bio" where
  "UVBio_Create b = (1, b\<lparr>bio_init := 1, bio_num := 0, bio_ptr := None, bio_flags := 0\<rparr>)"

definition UVBio_Destroy :: "bio option \<Rightarrow> int \<times> bio option" where
  "UVBio_Destroy b =
     (case b of
        None \<Rightarrow> (0, None)
      | Some b \<Rightarrow> (1, Some (b\<lparr>bio_ptr := None, bio_init := 0, bio_flags := 0\<rparr>)))"

text \<open>
  \<open>Read\<close>: the return value, the caller's buffer after the call, and the BIO.
\<close>

definition UVBio_Read :: "32 word \<Rightarrow> bio \<Rightarrow> block \<Rightarrow> int \<Rightarrow> (int \<times> block \<times> bio) res" where
  "UVBio_Read retry_read b buf len =
     (case bio_ptr b of
        None \<Rightarrow> Inl OutOfBounds
      | Some state \<Rightarrow>
          if \<not> HasBuffers state
          then Inr (-1, buf, b\<lparr>bio_flags := bio_flags b OR retry_read\<rparr>)
          else bindR (GetBuffer state) (\<lambda>(ba, state).
            if Length ba > len
            then bindR (Slice ba len (-1)) (\<lambda>remain.
                 let state = PutOldBuffer remain state
                 in bindR (c_memcpy buf 0 (ConstData ba) 0 len) (\<lambda>buf.
                      Inr (len, buf, b\<lparr>bio_ptr := Some state\<rparr>)))
            else bindR (c_memcpy buf 0 (ConstData ba) 0 (Length ba)) (\<lambda>buf.
                 Inr (Length ba, buf, b\<lparr>bio_ptr := Some state\<rparr>))))"

text \<open>
  \<open>Write\<close> hands the caller's buffer to \<open>uv_write\<close>, whose success is the parameter \<open>uv_ok\<close>:
  the return value and the bytes given to libuv, as they are at the call. (The source passes a
  pointer to OpenSSL's buffer, which libuv may read later, when it cannot write at once; the memory
  and what OpenSSL does with it until then are not part of the model.)
\<close>

definition UVBio_Write :: "bool \<Rightarrow> bio \<Rightarrow> cell list \<Rightarrow> int \<Rightarrow> (int \<times> cell list) res" where
  "UVBio_Write uv_ok b buf len =
     (case bio_ptr b of
        None \<Rightarrow> Inl OutOfBounds
      | Some state \<Rightarrow>
          if \<not> uv_ok then Inr (-1, [])
          else Inr (len, take (nat len) buf))"

text \<open>\<open>WriteCallback\<close>: asserts its request and logs a status that is not 0.\<close>

definition UVBio_WriteCallback :: "bool \<Rightarrow> int \<Rightarrow> bool res" where
  "UVBio_WriteCallback req_not_null status =
     assertR req_not_null (if status \<noteq> 0 then Inr True else Inr False)"

definition UVBio_Puts :: "bio \<Rightarrow> string \<Rightarrow> int" where
  "UVBio_Puts b str = -1"

definition UVBio_Gets :: "bio \<Rightarrow> block \<Rightarrow> int \<Rightarrow> int" where
  "UVBio_Gets b buf len = -1"

definition UVBio_Ctrl :: "int \<Rightarrow> bio \<Rightarrow> int \<Rightarrow> int \<Rightarrow> int" where
  "UVBio_Ctrl BIO_CTRL_FLUSH b cmd num = (if cmd = BIO_CTRL_FLUSH then 1 else 0)"

subsection \<open>The pending bytes\<close>

definition pending :: "uvbio_state \<Rightarrow> cell list" where
  "pending st = concat (map content (bufs st))"

definition uvbio_wf :: "uvbio_state \<Rightarrow> bool" where
  "uvbio_wf st \<longleftrightarrow> (\<forall>ba \<in> set (bufs st). ba_wf ba)"

text \<open>No empty buffer is queued.\<close>

definition uvbio_live :: "uvbio_state \<Rightarrow> bool" where
  "uvbio_live st \<longleftrightarrow> (\<forall>ba \<in> set (bufs st). content ba \<noteq> [])"

text \<open>One read into a fresh buffer of the caller: the bytes it obtained.\<close>

definition uvbio_get :: "int \<Rightarrow> uvbio_state \<Rightarrow> (cell list \<times> uvbio_state) res" where
  "uvbio_get len st =
     bindR (UVBio_Read 0 \<lparr>bio_init = 1, bio_num = 0, bio_ptr = Some st, bio_flags = 0\<rparr>
              (c_malloc len) len) (\<lambda>(n, buf, b).
       Inr (if n < 0 then [] else take (nat n) (case buf of None \<Rightarrow> [] | Some xs \<Rightarrow> xs),
            case bio_ptr b of None \<Rightarrow> st | Some st' \<Rightarrow> st'))"

lemma pending_simps [simp]:
  "pending UVBioState_new = []"
  "pending (PutNewBuffer ba st) = pending st @ content ba"
  "pending (PutOldBuffer ba st) = content ba @ pending st"
  by (simp_all add: pending_def UVBioState_new_def PutNewBuffer_def PutOldBuffer_def)

lemma uvbio_wf_simps [simp]:
  "uvbio_wf UVBioState_new"
  "uvbio_wf (PutNewBuffer ba st) \<longleftrightarrow> uvbio_wf st \<and> ba_wf ba"
  "uvbio_wf (PutOldBuffer ba st) \<longleftrightarrow> ba_wf ba \<and> uvbio_wf st"
  by (auto simp: uvbio_wf_def UVBioState_new_def PutNewBuffer_def PutOldBuffer_def)

lemma GetBuffer_Cons:
  "bufs st = ba # rest \<Longrightarrow> GetBuffer st = Inr (ba, st\<lparr>bufs := rest\<rparr>)"
  by (simp add: GetBuffer_def)

subsection \<open>What one read does\<close>

lemma Slice_wf_content:
  assumes "ba_wf ba" "0 \<le> off" "off \<le> ba_len ba"
  shows "\<exists>r. Slice ba off (-1) = Inr r \<and> ba_wf r \<and> content r = drop (nat off) (content ba)"
proof -
  let ?r = "\<lparr>ba_buf = Some (drop (nat off) (content ba)),
    ba_len = ba_len ba - off, ba_cap = ba_len ba - off\<rparr>"
  have "Slice ba off (-1) = Inr ?r" by (rule Slice_rest [OF assms])
  moreover from this have "ba_wf ?r" by (rule Slice_wf [OF assms(1)])
  moreover have "content ?r = drop (nat off) (content ba)"
    using length_content [OF \<open>ba_wf ?r\<close>] by (simp add: content_def cells_def)
  ultimately show ?thesis by blast
qed

lemma memcpy_head:
  assumes "ba_wf ba" "0 \<le> n" "n \<le> ba_len ba" "n \<le> int (length xs)"
  shows "c_memcpy (Some xs) 0 (ba_buf ba) 0 n =
    Inr (Some (take (nat n) (content ba) @ drop (nat n) xs))"
proof (cases "ba_buf ba")
  case None
  with assms ba_wf_bufD [of ba] have "n = 0" by simp
  then show ?thesis by simp
next
  case (Some ys)
  have "take (nat n) (content ba) = take (nat n) ys"
    using assms(3) Some by (simp add: content_def cells_def min_absorb1)
  moreover have "n \<le> int (length ys)"
    using assms Some by (simp add: ba_wf_Some)
  ultimately show ?thesis
    using assms(2,4) Some by (simp add: c_memcpy_ok)
qed

lemma Read_empty:
  assumes "bio_ptr b = Some st" "bufs st = []"
  shows "UVBio_Read retry_read b buf n = Inr (-1, buf, b\<lparr>bio_flags := bio_flags b OR retry_read\<rparr>)"
  using assms by (simp add: UVBio_Read_def HasBuffers_def)

lemma Read_Cons:
  assumes "bio_ptr b = Some st" "uvbio_wf st" "bufs st = ba # rest"
    and "0 \<le> len" "len \<le> int (length xs)"
  defines "n \<equiv> min len (ba_len ba)"
  shows "\<exists>st'. UVBio_Read retry_read b (Some xs) len =
       Inr (n, Some (take (nat n) (content ba) @ drop (nat n) xs), b\<lparr>bio_ptr := Some st'\<rparr>)
    \<and> uvbio_wf st' \<and> pending st = take (nat n) (content ba) @ pending st'
    \<and> set (bufs st') \<subseteq> set rest \<union> {r. content r = drop (nat n) (content ba) \<and> n < ba_len ba \<and> ba_wf r}"
proof -
  have ba: "ba_wf ba" "0 \<le> ba_len ba" and pend: "pending st = content ba @ concat (map content rest)"
    using assms(2,3) by (auto simp: uvbio_wf_def pending_def ba_wf_def)
  let ?rest = "st\<lparr>bufs := rest\<rparr>"
  have rest: "uvbio_wf ?rest" "pending ?rest = concat (map content rest)"
    using assms(2,3) by (simp_all add: uvbio_wf_def pending_def)
  show ?thesis
  proof (cases "len < ba_len ba")
    case True
    with Slice_wf_content [of ba len] ba assms(4) obtain r where
      r: "Slice ba len (-1) = Inr r" "ba_wf r" "content r = drop (nat len) (content ba)"
      by auto
    have "UVBio_Read retry_read b (Some xs) len =
        Inr (n, Some (take (nat n) (content ba) @ drop (nat n) xs),
             b\<lparr>bio_ptr := Some (PutOldBuffer r ?rest)\<rparr>)"
      using assms(1,3,4,5) True ba r(1)
      by (simp add: UVBio_Read_def HasBuffers_def GetBuffer_Cons Length_def ConstData_def
          memcpy_head n_def min_absorb1)
    moreover have "pending st = take (nat n) (content ba) @ pending (PutOldBuffer r ?rest)"
      using True pend r(3) rest(2) by (simp add: n_def min_absorb1 flip: append_assoc)
    moreover have "set (bufs (PutOldBuffer r ?rest)) \<subseteq>
        set rest \<union> {r. content r = drop (nat n) (content ba) \<and> n < ba_len ba \<and> ba_wf r}"
      using r True by (auto simp: PutOldBuffer_def n_def)
    ultimately show ?thesis
      using r(2) rest(1) by (intro exI [of _ "PutOldBuffer r ?rest"]) simp
  next
    case False
    have *: "take (nat n) (content ba) = content ba" "n = ba_len ba"
      using False length_content [OF ba(1)] by (auto simp: n_def)
    have "UVBio_Read retry_read b (Some xs) len =
        Inr (n, Some (take (nat n) (content ba) @ drop (nat n) xs), b\<lparr>bio_ptr := Some ?rest\<rparr>)"
      using assms(1,3,5) False ba *(2)
      by (simp add: UVBio_Read_def HasBuffers_def GetBuffer_Cons Length_def ConstData_def
          memcpy_head)
    then show ?thesis
      using rest pend *(1) by (intro exI [of _ ?rest]) simp
  qed
qed

lemma uvbio_get_spec:
  assumes "uvbio_wf st" "0 \<le> len"
  shows "\<exists>out st'. uvbio_get len st = Inr (out, st') \<and> uvbio_wf st'
    \<and> pending st = out @ pending st' \<and> int (length out) \<le> len
    \<and> (uvbio_live st \<longrightarrow> uvbio_live st' \<and> (0 < len \<longrightarrow> pending st \<noteq> [] \<longrightarrow> out \<noteq> []))"
proof (cases "bufs st")
  case Nil
  then have "uvbio_get len st = Inr ([], st)"
    using assms by (simp add: uvbio_get_def Read_empty)
  moreover have "pending st = []" using Nil by (simp add: pending_def)
  ultimately show ?thesis using assms by simp
next
  case (Cons ba rest)
  let ?b = "\<lparr>bio_init = 1, bio_num = 0, bio_ptr = Some st, bio_flags = 0\<rparr>"
  let ?n = "min len (ba_len ba)"
  have wf: "ba_wf ba" "0 \<le> ba_len ba" "int (length (content ba)) = ba_len ba"
    using assms(1) Cons length_content by (auto simp: uvbio_wf_def ba_wf_def)
  from Read_Cons [of ?b st ba rest len "replicate (nat len) None" 0] assms Cons
  obtain st' where st':
    "UVBio_Read 0 ?b (c_malloc len) len = Inr (?n, Some (take (nat ?n) (content ba)
        @ drop (nat ?n) (replicate (nat len) None)), ?b\<lparr>bio_ptr := Some st'\<rparr>)"
    "uvbio_wf st'" "pending st = take (nat ?n) (content ba) @ pending st'"
    "set (bufs st') \<subseteq> set rest \<union> {r. content r = drop (nat ?n) (content ba) \<and> ?n < ba_len ba \<and> ba_wf r}"
    by auto
  have len: "length (take (nat ?n) (content ba)) = nat ?n" and n: "0 \<le> ?n"
    using wf assms(2) by auto
  then have "uvbio_get len st = Inr (take (nat ?n) (content ba), st')"
    using st'(1) by (simp add: uvbio_get_def del: length_take)
  moreover have "uvbio_live st' \<and> (0 < len \<longrightarrow> take (nat ?n) (content ba) \<noteq> [])"
    if live: "uvbio_live st"
  proof -
    have "content ba \<noteq> []" using live Cons by (simp add: uvbio_live_def)
    then have "length (content ba) > 0" by blast
    then have "0 < ba_len ba" using wf(3) by linarith
    with len have "0 < len \<longrightarrow> take (nat ?n) (content ba) \<noteq> []" by auto
    moreover have "uvbio_live st'"
      using st'(4) live Cons wf(3) n by (fastforce simp: uvbio_live_def)
    ultimately show ?thesis by blast
  qed
  ultimately show ?thesis using st'(2,3) len n by auto
qed

subsection \<open>The channel contract\<close>

text \<open>
  What the TLS connection relies on: bytes are put at one end in whole buffers and taken at the
  other in pieces of the reader's choosing. \<open>chan_run\<close> is any interleaving of the two.
\<close>

datatype chan_op = Put bytearray | Get int

fun chan_run :: "(bytearray \<Rightarrow> 's \<Rightarrow> 's) \<Rightarrow> (int \<Rightarrow> 's \<Rightarrow> (cell list \<times> 's) res)
    \<Rightarrow> chan_op list \<Rightarrow> 's \<Rightarrow> (cell list \<times> 's) res" where
  "chan_run put get [] s = Inr ([], s)"
| "chan_run put get (Put ba # ops) s = chan_run put get ops (put ba s)"
| "chan_run put get (Get n # ops) s =
     bindR (get n s) (\<lambda>(out, s). bindR (chan_run put get ops s) (\<lambda>(outs, s).
       Inr (out @ outs, s)))"

fun chan_puts :: "chan_op list \<Rightarrow> cell list" where
  "chan_puts [] = []"
| "chan_puts (Put ba # ops) = content ba @ chan_puts ops"
| "chan_puts (Get n # ops) = chan_puts ops"

definition chan_op_ok :: "chan_op \<Rightarrow> bool" where
  "chan_op_ok op = (case op of Put ba \<Rightarrow> ba_wf ba | Get n \<Rightarrow> 0 \<le> n)"

locale byte_channel =
  fixes inv :: "'s \<Rightarrow> bool" and pend :: "'s \<Rightarrow> cell list"
    and put :: "bytearray \<Rightarrow> 's \<Rightarrow> 's" and get :: "int \<Rightarrow> 's \<Rightarrow> (cell list \<times> 's) res"
  assumes put_inv: "inv s \<Longrightarrow> ba_wf ba \<Longrightarrow> inv (put ba s)"
    and put_pend: "pend (put ba s) = pend s @ content ba"
    and get_ok: "inv s \<Longrightarrow> 0 \<le> n \<Longrightarrow>
      \<exists>out s'. get n s = Inr (out, s') \<and> inv s' \<and> pend s = out @ pend s' \<and> int (length out) \<le> n"
begin

lemma run_conserves:
  assumes "inv s" "\<forall>op \<in> set ops. chan_op_ok op"
  shows "\<exists>out s'. chan_run put get ops s = Inr (out, s') \<and> inv s'
    \<and> pend s @ chan_puts ops = out @ pend s'"
  using assms
proof (induction ops arbitrary: s)
  case Nil
  then show ?case by simp
next
  case (Cons op ops)
  show ?case
  proof (cases op)
    case (Put ba)
    with Cons show ?thesis by (simp add: chan_op_ok_def put_inv flip: put_pend append_assoc)
  next
    case (Get n)
    with Cons.prems obtain out s' where
      g: "get n s = Inr (out, s')" "inv s'" "pend s = out @ pend s'"
      using get_ok [of s n] by (auto simp: chan_op_ok_def)
    with Cons obtain outs s'' where "chan_run put get ops s' = Inr (outs, s'')" "inv s''"
      "pend s' @ chan_puts ops = outs @ pend s''"
      by fastforce
    with g Get show ?thesis by simp
  qed
qed

end

text \<open>
  A channel that also makes progress: while no empty buffer is queued, a read with room for a
  byte returns one whenever there is one. Then enough reads return everything.
\<close>

locale live_channel = byte_channel +
  fixes live :: "'s \<Rightarrow> bool"
  assumes put_live: "live s \<Longrightarrow> content ba \<noteq> [] \<Longrightarrow> live (put ba s)"
    and get_live: "inv s \<Longrightarrow> live s \<Longrightarrow> 0 \<le> n \<Longrightarrow> get n s = Inr (out, s') \<Longrightarrow> live s'"
    and get_progress: "inv s \<Longrightarrow> live s \<Longrightarrow> 0 < n \<Longrightarrow> pend s \<noteq> [] \<Longrightarrow>
      get n s = Inr (out, s') \<Longrightarrow> out \<noteq> []"
begin

lemma drain:
  assumes "inv s" "live s" "0 < n" "length (pend s) \<le> k"
  shows "\<exists>s'. chan_run put get (replicate k (Get n)) s = Inr (pend s, s') \<and> pend s' = []"
  using assms
proof (induction k arbitrary: s)
  case 0
  then show ?case by simp
next
  case (Suc k)
  then obtain out s' where g: "get n s = Inr (out, s')" "inv s'" "pend s = out @ pend s'"
    using get_ok [of s n] by auto
  moreover have "live s'" using Suc.prems g(1) get_live [of s n] by simp
  moreover have "length (pend s') \<le> k"
  proof (cases "pend s = []")
    case True
    with g(3) show ?thesis by simp
  next
    case False
    then have "out \<noteq> []" using Suc.prems get_progress [of s n out s'] g(1) by blast
    then have "Suc 0 \<le> length out" by (cases out) simp_all
    with g(3) Suc.prems(4) show ?thesis by simp
  qed
  ultimately obtain s'' where
    "chan_run put get (replicate k (Get n)) s' = Inr (pend s', s'')" "pend s'' = []"
    using Suc.IH [of s'] Suc.prems(3) by blast
  with g show ?case by simp
qed

end

interpretation uvq: live_channel uvbio_wf pending PutNewBuffer uvbio_get uvbio_live
proof unfold_locales
  fix s :: uvbio_state and n :: int
  assume "uvbio_wf s" "0 \<le> n"
  from uvbio_get_spec [OF this] show "\<exists>out s'. uvbio_get n s = Inr (out, s') \<and> uvbio_wf s'
      \<and> pending s = out @ pending s' \<and> int (length out) \<le> n" by blast
next
  fix s s' :: uvbio_state and n :: int and out
  assume *: "uvbio_wf s" "uvbio_live s" "0 \<le> n" "uvbio_get n s = Inr (out, s')"
  from uvbio_get_spec [OF *(1,3)] *(2,4) show "uvbio_live s'" by auto
next
  fix s s' :: uvbio_state and n :: int and out
  assume *: "uvbio_wf s" "uvbio_live s" "0 < n" "pending s \<noteq> []" "uvbio_get n s = Inr (out, s')"
  from uvbio_get_spec [OF *(1), of n] *(2-5) show "out \<noteq> []" by auto
qed (simp, simp, auto simp: uvbio_live_def PutNewBuffer_def)

subsection \<open>Properties\<close>

text \<open>C1: Whatever buffers the network layer queues and however OpenSSL's reads interleave with
  them, every read returns, stays inside its buffers, and the bytes read so far followed by the
  bytes still queued are exactly the bytes received, in order.\<close>

theorem UVBio_conserves_stream:
  assumes "\<forall>op \<in> set ops. chan_op_ok op"
  shows "\<exists>out st. chan_run PutNewBuffer uvbio_get ops UVBioState_new = Inr (out, st)
    \<and> chan_puts ops = out @ pending st"
  using uvq.run_conserves [OF uvbio_wf_simps(1) assms] by auto

definition sample_ba :: "string \<Rightarrow> bytearray" where
  "sample_ba s = \<lparr>ba_buf = Some (map Some s), ba_len = int (length s), ba_cap = int (length s)\<rparr>"

lemma sample_ba_simps [simp]:
  "content (sample_ba s) = map Some s"
  "ba_wf (sample_ba s) \<longleftrightarrow> int (length s) \<le> INT_MAX"
  by (auto simp: sample_ba_def content_def cells_def ba_wf_def)

theorem UVBio_conserves_stream_witness:
  "\<exists>out st. chan_run PutNewBuffer uvbio_get
      [Put (sample_ba ''hello''), Get 3, Put (sample_ba ''!''), Get 9, Get 9] UVBioState_new
      = Inr (out, st) \<and> map Some ''hello!'' = out @ pending st"
  using UVBio_conserves_stream [of "[Put (sample_ba ''hello''), Get 3, Put (sample_ba ''!''), Get 9, Get 9]"]
  by (simp add: chan_op_ok_def)

text \<open>C20: When no empty buffer is queued, reading with room for at least one byte as often as
  there are bytes returns all of them and leaves the queue empty of bytes.\<close>

theorem UVBio_drains:
  assumes "uvbio_wf st" "uvbio_live st" "0 < n" "length (pending st) \<le> k"
  shows "\<exists>st'. chan_run PutNewBuffer uvbio_get (replicate k (Get n)) st = Inr (pending st, st')
    \<and> pending st' = []"
  by (rule uvq.drain [OF assms])

theorem UVBio_drains_witness:
  "\<exists>st'. chan_run PutNewBuffer uvbio_get (replicate 3 (Get 2)) \<lparr>bufs = [sample_ba ''abc'']\<rparr> =
     Inr (map Some ''abc'', st') \<and> pending st' = []"
  using UVBio_drains [of "\<lparr>bufs = [sample_ba ''abc'']\<rparr>" 2 3]
  by (simp add: uvbio_wf_def uvbio_live_def pending_def)

end
