(* ===== verification/Errors.thy ===== *)
theory Errors
  imports Prelude
begin

section \<open>Error values and where they come from\<close>

text \<open>
  \<open>mumble::Error\<close> (\<open>include/mumble/Error.h\<close>, \<open>src/Error.cpp\<close>) and the functions that make
  one from a libuv error (\<open>src/UVUtils.cpp\<close>), from a libssl result code and from libcrypto's
  error queue (\<open>src/OpenSSLUtils.cpp\<close>). What those libraries return is a parameter:
  \<open>uv_strerror\<close>, the numbers of the \<open>SSL_ERROR_\<close> constants, and the record
  \<open>crypto_err_api\<close> of libcrypto's error functions. A C \<open>long\<close> is 64 bits wide.
\<close>

subsection \<open>Error\<close>

record mumble_error =
  err_domain :: string
  err_description :: string
  err_code :: int

text \<open>The constructor of \<open>ErrorPrivate\<close>: empty strings and code 0.\<close>

definition Error_new :: mumble_error where
  "Error_new = \<lparr>err_domain = [], err_description = [], err_code = 0\<rparr>"

definition ErrorFromDescription :: "string \<Rightarrow> int \<Rightarrow> string \<Rightarrow> mumble_error" where
  "ErrorFromDescription domain code description =
     (let err = Error_new;
          err = err\<lparr>err_domain := domain\<rparr>;
          err = err\<lparr>err_code := code\<rparr>;
          err = err\<lparr>err_description := description\<rparr>
      in err)"

definition NoError :: mumble_error where
  "NoError = Error_new"

definition Error_copy :: "mumble_error \<Rightarrow> mumble_error" where
  "Error_copy err =
     (let this = Error_new;
          this = this\<lparr>err_domain := err_domain err\<rparr>;
          this = this\<lparr>err_code := err_code err\<rparr>;
          this = this\<lparr>err_description := err_description err\<rparr>
      in this)"

text \<open>\<open>operator=\<close> copies its argument and swaps the private part with the copy.\<close>

definition Error_assign :: "mumble_error \<Rightarrow> mumble_error \<Rightarrow> mumble_error" where
  "Error_assign this err = (let tmp = Error_copy err; (this', tmp') = (tmp, this) in this')"

definition HasError :: "mumble_error \<Rightarrow> bool" where
  "HasError e \<longleftrightarrow> \<not> (err_domain e = [] \<and> err_description e = [] \<and> err_code e = 0)"

definition Error_Domain :: "mumble_error \<Rightarrow> string" where
  "Error_Domain e = err_domain e"

definition Error_Code :: "mumble_error \<Rightarrow> int" where
  "Error_Code e = err_code e"

definition Error_Description :: "mumble_error \<Rightarrow> string" where
  "Error_Description e = err_description e"

text \<open>What \<open>operator<<\<close> of an output stream prints for a \<open>long\<close>: decimal, with a minus sign.\<close>

fun show_nat :: "nat \<Rightarrow> string" where
  "show_nat n = (if n < 10 then [digit_char n] else show_nat (n div 10) @ [digit_char (n mod 10)])"

declare show_nat.simps [simp del]

definition show_long :: "int \<Rightarrow> string" where
  "show_long i = (if i < 0 then CHR ''-'' # show_nat (nat (- i)) else show_nat (nat i))"

definition Error_String :: "mumble_error \<Rightarrow> string" where
  "Error_String e =
     err_domain e @ '': '' @ err_description e @ '' (error code: '' @ show_long (err_code e) @ '')''"

subsection \<open>NotReached\<close>

text \<open>\<open>src/Utils.cpp\<close>: throws or aborts, and so never continues.\<close>

definition NotReached :: "'a res" where
  "NotReached = Inl NotReachedTrap"

subsection \<open>libuv errors\<close>

record uv_err =
  uv_code :: int
  uv_sys_errno :: int

definition ErrorFromUVError :: "(uv_err \<Rightarrow> string) \<Rightarrow> uv_err \<Rightarrow> mumble_error" where
  "ErrorFromUVError uv_strerror err = ErrorFromDescription ''uv'' (uv_code err) (uv_strerror err)"

definition ErrorFromLastUVError ::
    "(uv_err \<Rightarrow> string) \<Rightarrow> ('l \<Rightarrow> uv_err) \<Rightarrow> 'l \<Rightarrow> mumble_error" where
  "ErrorFromLastUVError uv_strerror uv_last_error loop =
     (let last = uv_last_error loop in ErrorFromUVError uv_strerror last)"

subsection \<open>OpenSSL errors\<close>

text \<open>
  The result codes of \<open>SSL_get_error\<close>. Their numbers are OpenSSL's; a number none of the
  constants has is \<open>SSL_ERROR_OTHER\<close>.
\<close>

datatype ssl_error =
    SSL_ERROR_NONE
  | SSL_ERROR_ZERO_RETURN
  | SSL_ERROR_WANT_READ
  | SSL_ERROR_WANT_WRITE
  | SSL_ERROR_WANT_CONNECT
  | SSL_ERROR_WANT_ACCEPT
  | SSL_ERROR_WANT_X509_LOOKUP
  | SSL_ERROR_SYSCALL
  | SSL_ERROR_SSL
  | SSL_ERROR_OTHER int

fun SSLErrorToString :: "ssl_error \<Rightarrow> string" where
  "SSLErrorToString SSL_ERROR_NONE = ''SSL_ERROR_NONE - operation completed successfully''"
| "SSLErrorToString SSL_ERROR_ZERO_RETURN = ''SSL_ERROR_ZERO_RETURN - connection closed by peer''"
| "SSLErrorToString SSL_ERROR_WANT_READ =
     ''SSL_ERROR_WANT_READ - requires a read operation to continue''"
| "SSLErrorToString SSL_ERROR_WANT_WRITE =
     ''SSL_ERROR_WANT_WRITE - requires a write operation to continue''"
| "SSLErrorToString SSL_ERROR_WANT_CONNECT =
     ''SSL_ERROR_WANT_CONNECT - operation did not complete, call SSL_connect again later''"
| "SSLErrorToString SSL_ERROR_WANT_ACCEPT =
     ''SSL_ERROR_WANT_ACCEPT - operation did not complete, call SSL_accept again laster''"
| "SSLErrorToString SSL_ERROR_WANT_X509_LOOKUP =
     ''SSL_ERROR_WANT_X509_LOOKUP - operation did not complete, call the TLS I/O function again later''"
| "SSLErrorToString SSL_ERROR_SYSCALL = ''SSL_ERROR_SYSCALL - system I/O error''"
| "SSLErrorToString SSL_ERROR_SSL =
     ''SSL_ERROR_SSL - SSL library error, probably a protocol error''"
| "SSLErrorToString (SSL_ERROR_OTHER n) = ''(none)''"

definition ErrorFromOpenSSLErrorCode :: "(ssl_error \<Rightarrow> int) \<Rightarrow> ssl_error \<Rightarrow> mumble_error" where
  "ErrorFromOpenSSLErrorCode ssl_num SSLerr =
     ErrorFromDescription ''libssl'' (ssl_num SSLerr) (SSLErrorToString SSLerr)"

text \<open>
  libcrypto's error queue. \<open>ERR_get_error\<close> removes the oldest code of the thread's queue; the
  string functions return null for a library or function they do not know.
\<close>

record 'q crypto_err_api =
  ERR_get_error :: "'q \<Rightarrow> 64 word \<times> 'q"
  ERR_lib_error_string :: "64 word \<Rightarrow> string option"
  ERR_func_error_string :: "64 word \<Rightarrow> string option"
  ERR_reason_error_string :: "64 word \<Rightarrow> string option"

text \<open>\<open>operator<<\<close> on a null \<open>const char *\<close> has no defined behaviour.\<close>

definition put_cstr :: "string option \<Rightarrow> string res" where
  "put_cstr s = (case s of None \<Rightarrow> Inl OutOfBounds | Some t \<Rightarrow> Inr t)"

definition ErrorFromLastCryptoError :: "'q crypto_err_api \<Rightarrow> 'q \<Rightarrow> (mumble_error \<times> 'q) res" where
  "ErrorFromLastCryptoError api q =
     (let (cryptocode, q) = ERR_get_error api q;
          error = ERR_lib_error_string api cryptocode;
          func = ERR_func_error_string api cryptocode;
          reason = ERR_func_error_string api cryptocode
      in bindR (put_cstr error) (\<lambda>error.
         bindR (put_cstr reason) (\<lambda>reason.
         bindR (put_cstr func) (\<lambda>func.
           Inr (ErrorFromDescription ''libcrypto'' (sint cryptocode)
                  (error @ ''; '' @ reason @ ''; '' @ func), q)))))"

subsection \<open>One-time initialisation\<close>

text \<open>
  \<open>EnsureInitialized\<close> runs \<open>InitializeOpenSSL\<close> through \<open>uv_once\<close>, the parameter
  \<open>uv_once\<close>, on the guard \<open>sslinit\<close>; the calls into OpenSSL are recorded in order.
\<close>

datatype openssl_init_call =
  SSL_library_init | OpenSSL_add_all_algorithms | ERR_load_crypto_strings | SSL_load_error_strings

definition InitializeOpenSSL :: "openssl_init_call list \<Rightarrow> openssl_init_call list" where
  "InitializeOpenSSL calls = calls
     @ [SSL_library_init, OpenSSL_add_all_algorithms, ERR_load_crypto_strings, SSL_load_error_strings]"

definition EnsureInitialized ::
    "((openssl_init_call list \<Rightarrow> openssl_init_call list)
        \<Rightarrow> 'g \<times> openssl_init_call list \<Rightarrow> 'g \<times> openssl_init_call list)
     \<Rightarrow> 'g \<times> openssl_init_call list \<Rightarrow> 'g \<times> openssl_init_call list" where
  "EnsureInitialized uv_once sslinit = uv_once InitializeOpenSSL sslinit"

text \<open>
  What libuv documents of \<open>uv_once\<close>: on a guard that has not fired it runs the function and the
  guard has fired; on one that has fired it does nothing.
\<close>

definition once_law :: "(('s \<Rightarrow> 's) \<Rightarrow> 'g \<times> 's \<Rightarrow> 'g \<times> 's) \<Rightarrow> ('g \<Rightarrow> bool) \<Rightarrow> bool" where
  "once_law uv_once fired \<longleftrightarrow>
     (\<forall>f g s. \<not> fired g \<longrightarrow> fired (fst (uv_once f (g, s))) \<and> snd (uv_once f (g, s)) = f s)
   \<and> (\<forall>f g s. fired g \<longrightarrow> uv_once f (g, s) = (g, s))"

subsection \<open>Lemmas\<close>

lemma ErrorFromDescription_sel [simp]:
  "err_domain (ErrorFromDescription d c s) = d"
  "err_code (ErrorFromDescription d c s) = c"
  "err_description (ErrorFromDescription d c s) = s"
  by (simp_all add: ErrorFromDescription_def Let_def)

lemma Error_copy_id [simp]: "Error_copy e = e"
  by (simp add: Error_copy_def Let_def Error_new_def)

lemma Error_assign_id [simp]: "Error_assign this e = e"
  by (simp add: Error_assign_def)

lemma HasError_NoError [simp]: "\<not> HasError NoError"
  by (simp add: HasError_def NoError_def Error_new_def)

lemma HasError_iff:
  "HasError (ErrorFromDescription d c s) \<longleftrightarrow> d \<noteq> [] \<or> s \<noteq> [] \<or> c \<noteq> 0"
  by (auto simp: HasError_def)

text \<open>The printed decimal of a \<open>long\<close> is read back by the usual fold.\<close>

definition read_nat :: "string \<Rightarrow> nat" where
  "read_nat s = foldl (\<lambda>n c. 10 * n + (of_char c - 48)) 0 s"

lemma read_show_nat: "read_nat (show_nat n) = n"
proof (induction n rule: show_nat.induct)
  case (1 n)
  then show ?case
    by (cases "n < 10") (simp_all add: show_nat.simps [of n] read_nat_def of_char_digit)
qed

lemma show_nat_digits: "c \<in> set (show_nat n) \<Longrightarrow> 48 \<le> (of_char c :: nat)"
proof (induction n rule: show_nat.induct)
  case (1 n)
  then show ?case
    by (cases "n < 10") (auto simp: show_nat.simps [of n] of_char_digit)
qed

lemma show_nat_not_minus: "CHR ''-'' \<notin> set (show_nat n)"
  using show_nat_digits [of "CHR ''-''" n] by auto

lemma show_long_no_space: "CHR '' '' \<notin> set (show_long i)"
  using show_nat_digits [of "CHR '' ''"] by (auto simp: show_long_def)

text \<open>The inverse of \<open>show_long\<close>.\<close>

definition read_long :: "string \<Rightarrow> int" where
  "read_long s = (if take 1 s = ''-'' then - int (read_nat (drop 1 s)) else int (read_nat s))"

lemma read_show_long: "read_long (show_long i) = i"
proof (cases "i < 0")
  case True
  then show ?thesis by (simp add: show_long_def read_long_def read_show_nat)
next
  case False
  have "take 1 (show_nat (nat i)) \<noteq> ''-''"
    using show_nat_not_minus [of "nat i"] by (cases "show_nat (nat i)") auto
  with False show ?thesis by (simp add: show_long_def read_long_def read_show_nat)
qed

lemma last_word:
  assumes "c \<notin> set x" "c \<notin> set y" "A @ c # x = B @ c # y"
  shows "x = y"
proof -
  have *: "takeWhile (\<lambda>d. d \<noteq> c) (rev (C @ c # z)) = rev z" if "c \<notin> set z" for C z
    using that by (auto simp: takeWhile_append)
  from *[OF assms(1), of A] *[OF assms(2), of B] assms(3) have "rev x = rev y" by simp
  then show ?thesis by simp
qed

subsection \<open>Properties\<close>

text \<open>The text of an error ends with its code in decimal, so two errors that print the same
  have the same code, whatever their domains and descriptions contain.\<close>

theorem Error_String_code:
  assumes "Error_String e = Error_String e'"
  shows "Error_Code e = Error_Code e'"
proof -
  let ?pre = "\<lambda>e. err_domain e @ '': '' @ err_description e @ '' (error code:''"
  have eq: "Error_String e = ?pre e @ CHR '' '' # (show_long (err_code e) @ '')'')" for e
    by (simp add: Error_String_def)
  have "show_long (err_code e) @ '')'' = show_long (err_code e') @ '')''"
    by (rule last_word [of "CHR '' ''" _ _ "?pre e" "?pre e'"])
       (use assms show_long_no_space in \<open>auto simp only: eq set_append, auto\<close>)
  then have "show_long (err_code e) = show_long (err_code e')" by simp
  then show ?thesis by (metis Error_Code_def read_show_long)
qed

theorem Error_String_code_witness:
  "Error_Code (ErrorFromDescription ''a'' (-4) ''b: c'')
     = Error_Code (ErrorFromDescription ''a: b'' (-4) ''c'')"
  by (rule Error_String_code) (simp add: Error_String_def)

text \<open>Every error made from a libuv error, from a libssl result code or from libcrypto's queue
  reports that it is one, whatever code and text the library gave, and copying or assigning it
  keeps that; an error assigned from \<open>NoError\<close> reports none.\<close>

theorem library_errors_are_errors:
  "HasError (Error_copy (ErrorFromUVError uv_strerror err))
   \<and> HasError (Error_assign old (ErrorFromLastUVError uv_strerror uv_last_error loop))
   \<and> HasError (Error_assign old (ErrorFromOpenSSLErrorCode ssl_num SSLerr))
   \<and> (ErrorFromLastCryptoError api q = Inr (e, q') \<longrightarrow> HasError (Error_assign old e))
   \<and> \<not> HasError (Error_assign old NoError)"
  by (auto simp: ErrorFromUVError_def ErrorFromLastUVError_def ErrorFromOpenSSLErrorCode_def
      ErrorFromLastCryptoError_def HasError_def Let_def NoError_def Error_new_def result_simps
      split: prod.splits)

definition sample_crypto :: "64 word list crypto_err_api" where
  "sample_crypto = \<lparr>ERR_get_error = (\<lambda>q. case q of [] \<Rightarrow> (0, []) | c # q \<Rightarrow> (c, q)),
     ERR_lib_error_string = (\<lambda>_. Some ''x509''),
     ERR_func_error_string = (\<lambda>_. Some ''X509_sign''),
     ERR_reason_error_string = (\<lambda>c. Some (if c = 7 then ''no key'' else ''bad key''))\<rparr>"

theorem library_errors_are_errors_witness:
  "HasError (Error_assign NoError (ErrorFromDescription ''libcrypto'' (-1)
     ''x509; X509_sign; X509_sign''))"
proof -
  have "ErrorFromLastCryptoError sample_crypto [-1] =
      Inr (ErrorFromDescription ''libcrypto'' (-1) ''x509; X509_sign; X509_sign'', [])"
    by (simp add: ErrorFromLastCryptoError_def sample_crypto_def put_cstr_def Let_def)
  then show ?thesis
    by (rule library_errors_are_errors [THEN conjunct2, THEN conjunct2, THEN conjunct2,
        THEN conjunct1, THEN mp])
qed

text \<open>The description made from libcrypto's queue holds the name of the failing function twice
  and never the reason: two libraries that differ only in their reason strings give the same
  error.\<close>

theorem crypto_error_without_reason:
  assumes "ERR_get_error api q = (c, q')"
    and "ERR_lib_error_string api c = Some l" "ERR_func_error_string api c = Some f"
  shows "ErrorFromLastCryptoError (api\<lparr>ERR_reason_error_string := reasons\<rparr>) q =
    Inr (ErrorFromDescription ''libcrypto'' (sint c) (l @ ''; '' @ f @ ''; '' @ f), q')"
  using assms by (simp add: ErrorFromLastCryptoError_def put_cstr_def Let_def)

theorem crypto_error_without_reason_witness:
  "ErrorFromLastCryptoError sample_crypto [7] =
     Inr (ErrorFromDescription ''libcrypto'' 7 ''x509; X509_sign; X509_sign'', [])"
  using crypto_error_without_reason [of sample_crypto "[7]" 7 "[]" "''x509''" "''X509_sign''"
      "ERR_reason_error_string sample_crypto"]
  by (simp add: sample_crypto_def)

lemma once_iterate:
  assumes "once_law uv_once fired" "\<not> fired g"
  shows "fired (fst ((uv_once f ^^ Suc n) (g, s))) \<and> snd ((uv_once f ^^ Suc n) (g, s)) = f s"
proof (induction n)
  case 0
  with assms show ?case by (simp add: once_law_def)
next
  case (Suc n)
  let ?st = "(uv_once f ^^ Suc n) (g, s)"
  have "uv_once f ?st = ?st" using Suc assms(1) by (metis once_law_def prod.collapse)
  with Suc show ?case by simp
qed

lemma once_first:
  assumes "once_law uv_once fired" "\<not> fired g"
  obtains g' where "uv_once f (g, s) = (g', f s)" "fired g'"
  using once_iterate [OF assms, of 0 f s] by (cases "uv_once f (g, s)") simp

text \<open>However often \<open>EnsureInitialized\<close> is called, the four initialisation functions of OpenSSL
  run exactly once and in their order.\<close>

theorem EnsureInitialized_once:
  assumes "once_law uv_once fired" "\<not> fired g"
  shows "snd ((EnsureInitialized uv_once ^^ Suc n) (g, [])) =
    [SSL_library_init, OpenSSL_add_all_algorithms, ERR_load_crypto_strings, SSL_load_error_strings]"
proof -
  have "EnsureInitialized uv_once = uv_once InitializeOpenSSL" by (simp add: EnsureInitialized_def fun_eq_iff)
  then show ?thesis using once_iterate [OF assms, where f = InitializeOpenSSL] by (simp add: InitializeOpenSSL_def)
qed

definition once_flag :: "('s \<Rightarrow> 's) \<Rightarrow> bool \<times> 's \<Rightarrow> bool \<times> 's" where
  "once_flag f st = (if fst st then st else (True, f (snd st)))"

theorem EnsureInitialized_once_witness:
  "length (snd ((EnsureInitialized once_flag ^^ Suc 3) (False, []))) = 4"
  using EnsureInitialized_once [of once_flag "\<lambda>b. b" False 3]
  by (simp add: once_law_def once_flag_def)

end
