(* ===== verification/Asn1Time.thy ===== *)
theory Asn1Time
  imports Prelude
begin

section \<open>Validity times\<close>

text \<open>
  \<open>X509CertificatePrivate::ParseASN1Time\<close> of \<open>src/X509Certificate_p.cpp\<close> with the two
  compatibility layers it is built on: \<open>strptime\<close> of \<open>src/Compat_win.cpp\<close> and \<open>timegm\<close> of
  \<open>src/Compat_win.cpp\<close> and \<open>src/Compat_android.cpp\<close>, and the conversion
  \<open>FileTimeFromStdTimeT\<close> of \<open>src/X509Verifier_win.cpp\<close>.

  \<open>ParseASN1Time\<close> takes \<open>strptime\<close> and \<open>timegm\<close> as arguments, because the platforms have
  different ones. What it needs of them is the locales \<open>strptime_impl\<close> (on a date of fourteen
  digits it fills in the six fields) and \<open>timegm_impl\<close> (on a date in the range of the platform it
  returns the seconds since the epoch). The Windows \<open>strptime\<close> and the Android \<open>timegm\<close> are
  shown to provide them.
\<close>

subsection \<open>struct tm\<close>

record tm =
  tm_sec :: int
  tm_min :: int
  tm_hour :: int
  tm_mday :: int
  tm_mon :: int
  tm_year :: int
  tm_wday :: int
  tm_yday :: int
  tm_isdst :: int

text \<open>\<open>memset(&tm, 0, sizeof(tm))\<close>.\<close>

definition tm_zero :: tm where
  "tm_zero = \<lparr>tm_sec = 0, tm_min = 0, tm_hour = 0, tm_mday = 0, tm_mon = 0, tm_year = 0,
     tm_wday = 0, tm_yday = 0, tm_isdst = 0\<rparr>"

subsection \<open>strptime of Compat_win.cpp\<close>

text \<open>The value of a (signed) \<open>char\<close>, minus that of the digit 0.\<close>

definition char_digit :: "char \<Rightarrow> int" where
  "char_digit c = (if (of_char c :: int) < 128 then of_char c else of_char c - 256) - 48"

definition x509fmt :: string where
  "x509fmt = ''%Y%m%d%H%M%S''"

definition strptime_win :: "string \<Rightarrow> string \<Rightarrow> tm option \<Rightarrow> tm option" where
  "strptime_win buf fmt tm =
     (case tm of
        None \<Rightarrow> None
      | Some tm \<Rightarrow>
          if fmt \<noteq> x509fmt then None
          else if length buf < 14 then None
          else
            (let year = char_digit (buf ! 0) * 1000 + char_digit (buf ! 1) * 100
                        + char_digit (buf ! 2) * 10 + char_digit (buf ! 3);
                 tm = tm\<lparr>tm_year := year - 1900\<rparr>;
                 month = char_digit (buf ! 4) * 10 + char_digit (buf ! 5);
                 tm = tm\<lparr>tm_mon := month - 1\<rparr>;
                 day = char_digit (buf ! 6) * 10 + char_digit (buf ! 7);
                 tm = tm\<lparr>tm_mday := day\<rparr>;
                 hour = char_digit (buf ! 8) * 10 + char_digit (buf ! 9);
                 tm = tm\<lparr>tm_hour := hour\<rparr>;
                 minute = char_digit (buf ! 10) * 10 + char_digit (buf ! 11);
                 tm = tm\<lparr>tm_min := minute\<rparr>;
                 seconds = char_digit (buf ! 12) * 10 + char_digit (buf ! 13);
                 tm = tm\<lparr>tm_sec := seconds\<rparr>
             in Some (tm\<lparr>tm_wday := 0, tm_yday := 0, tm_isdst := 0\<rparr>)))"

subsection \<open>timegm\<close>

text \<open>On Windows \<open>timegm\<close> is the C runtime's \<open>_mkgmtime\<close>, a parameter.\<close>

definition timegm_win :: "(tm \<Rightarrow> int) \<Rightarrow> tm \<Rightarrow> int" where
  "timegm_win mkgmtime tm = mkgmtime tm"

text \<open>On Android it narrows the C library's \<open>timegm64\<close>, a parameter, to 32 bits.\<close>

abbreviation INT32_MIN :: int where "INT32_MIN \<equiv> - 2147483648"
abbreviation INT32_MAX :: int where "INT32_MAX \<equiv> 2147483647"

definition timegm_android :: "(tm \<Rightarrow> int) \<Rightarrow> tm \<Rightarrow> int" where
  "timegm_android timegm64 tm =
     (let ts = timegm64 tm in if ts < INT32_MIN \<or> ts > INT32_MAX then INT32_MIN else ts)"

subsection \<open>ParseASN1Time\<close>

datatype asn1_time_type = V_ASN1_UTCTIME | V_ASN1_GENERALIZEDTIME | V_ASN1_OTHER int

text \<open>\<open>ASN1_TIME\<close>: its type and its bytes, whose number is the field \<open>length\<close>.\<close>

record asn1_time =
  at_type :: asn1_time_type
  at_data :: string

text \<open>What a function reading a C string sees of a buffer: the bytes before the first NUL.\<close>

definition c_str :: "string \<Rightarrow> string" where
  "c_str buf = takeWhile (\<lambda>c. c \<noteq> CHR 0x00) buf"

text \<open>The local \<open>buf\<close> after the branches, or \<open>None\<close> for the early return.\<close>

definition asn1_time_buf :: "asn1_time \<Rightarrow> string option" where
  "asn1_time_buf time =
     (if at_type time = V_ASN1_UTCTIME \<and> length (at_data time) = 13 \<and> at_data time ! 12 = CHR ''Z''
      then (let rest = take (length (at_data time) - 1) (at_data time)
            in if (of_char CHR ''5'' :: nat) \<le> of_char (at_data time ! 0)
               then Some (''19'' @ rest) else Some (''20'' @ rest))
      else if at_type time = V_ASN1_GENERALIZEDTIME \<and> length (at_data time) = 15
              \<and> at_data time ! 14 = CHR ''Z''
      then Some (take (length (at_data time) - 1) (at_data time))
      else None)"

definition ParseASN1Time ::
    "(string \<Rightarrow> string \<Rightarrow> tm option \<Rightarrow> tm option) \<Rightarrow> (tm \<Rightarrow> int) \<Rightarrow> asn1_time \<Rightarrow> int" where
  "ParseASN1Time strptime timegm time =
     (case asn1_time_buf time of
        None \<Rightarrow> 0
      | Some buf \<Rightarrow>
          (case strptime (c_str buf) ''%Y%m%d%H%M%S'' (Some tm_zero) of
             None \<Rightarrow> 0
           | Some tm \<Rightarrow> timegm tm))"

subsection \<open>FileTimeFromStdTimeT\<close>

text \<open>
  The two halves of a Windows \<open>FILETIME\<close>. The arithmetic is in \<open>ULONGLONG\<close>, 64 bits unsigned.
\<close>

record filetime =
  dwLowDateTime :: "32 word"
  dwHighDateTime :: "32 word"

definition FileTimeFromStdTimeT :: "64 word \<Rightarrow> filetime" where
  "FileTimeFromStdTimeT time =
     (let epoch_1601 = 11644473600; secs_to_100ns = 10000000;
          QuadPart = (epoch_1601 + time) * secs_to_100ns
      in \<lparr>dwLowDateTime = ucast QuadPart, dwHighDateTime = ucast (drop_bit 32 QuadPart)\<rparr>)"

subsection \<open>The calendar\<close>

definition leap_year :: "int \<Rightarrow> bool" where
  "leap_year y \<longleftrightarrow> y mod 4 = 0 \<and> (y mod 100 \<noteq> 0 \<or> y mod 400 = 0)"

definition days_in_month :: "int \<Rightarrow> int \<Rightarrow> int" where
  "days_in_month y m =
     (if m = 2 then (if leap_year y then 29 else 28)
      else if m = 4 \<or> m = 6 \<or> m = 9 \<or> m = 11 then 30 else 31)"

text \<open>Days of the year before the month, and days since 1970 before the year.\<close>

definition days_before_month :: "int \<Rightarrow> int \<Rightarrow> int" where
  "days_before_month y m =
     (if m \<le> 2 then 31 * (m - 1)
      else 59 + (153 * (m - 3) + 2) div 5 + (if leap_year y then 1 else 0))"

definition days_before_year :: "int \<Rightarrow> int" where
  "days_before_year y = 365 * (y - 1970) + (y - 1) div 4 - (y - 1) div 100 + (y - 1) div 400 - 477"

text \<open>POSIX's seconds since the epoch of a date and a time of day in UTC.\<close>

definition epoch_seconds :: "int \<Rightarrow> int \<Rightarrow> int \<Rightarrow> int \<Rightarrow> int \<Rightarrow> int \<Rightarrow> int" where
  "epoch_seconds y m d h mi s =
     (days_before_year y + days_before_month y m + (d - 1)) * 86400 + h * 3600 + mi * 60 + s"

definition valid_date :: "int \<Rightarrow> int \<Rightarrow> int \<Rightarrow> int \<Rightarrow> int \<Rightarrow> int \<Rightarrow> bool" where
  "valid_date y m d h mi s \<longleftrightarrow>
     0 \<le> y \<and> y \<le> 9999 \<and> 1 \<le> m \<and> m \<le> 12 \<and> 1 \<le> d \<and> d \<le> days_in_month y m
     \<and> 0 \<le> h \<and> h \<le> 23 \<and> 0 \<le> mi \<and> mi \<le> 59 \<and> 0 \<le> s \<and> s \<le> 59"

lemma days_before_month_Suc:
  "1 \<le> m \<Longrightarrow> m < 12 \<Longrightarrow> days_before_month y (m + 1) = days_before_month y m + days_in_month y m"
proof -
  assume "1 \<le> m" "m < 12"
  then have "m \<in> {1, 2, 3, 4, 5, 6, 7, 8, 9, 10, 11}" by simp presburger
  then show ?thesis by (auto simp: days_before_month_def days_in_month_def)
qed

lemma days_before_month_mono:
  assumes "1 \<le> m" "m \<le> n" "n \<le> 12"
  shows "days_before_month y m \<le> days_before_month y n"
  using assms(2,3)
proof (induction n rule: int_ge_induct)
  case base
  show ?case by simp
next
  case (step n)
  have "0 \<le> days_in_month y n" by (simp add: days_in_month_def)
  with step assms(1) days_before_month_Suc [of n y] show ?case by simp
qed

lemma div_pred:
  assumes "0 < (k::int)"
  shows "y div k = (y - 1) div k + (if y mod k = 0 then 1 else 0)"
proof (cases "y mod k = 0")
  case True
  then obtain q where q: "y = k * q" by (metis mult_div_mod_eq add.right_neutral)
  have "(k * q - 1) div k = q - 1"
    by (rule int_div_pos_eq [of _ _ _ "k - 1"]) (use assms in \<open>simp_all add: algebra_simps\<close>)
  with True assms q show ?thesis by simp
next
  case False
  then have "1 \<le> y mod k" using assms pos_mod_sign [of k y] by linarith
  moreover have "y mod k < k" using assms by (rule pos_mod_bound)
  moreover have "y - 1 = k * (y div k) + (y mod k - 1)" using mult_div_mod_eq [of k y] by linarith
  ultimately have "(y - 1) div k = y div k"
    by (intro int_div_pos_eq [of _ _ _ "y mod k - 1"]) simp_all
  with False show ?thesis by simp
qed

lemma four_dvd_hundred: "(4::int) dvd 100"
  by simp

lemma days_before_year_Suc:
  "days_before_year (y + 1) = days_before_year y + 365 + (if leap_year y then 1 else 0)"
proof -
  define a b c where "a = y div 4" and "b = y div 100" and "c = y div 400"
  have incl: "y mod 400 = 0 \<Longrightarrow> y mod 100 = 0" "y mod 100 = 0 \<Longrightarrow> y mod 4 = 0"
    by (metis dvd_eq_mod_eq_0 dvd_trans dvd_triv_left mult.commute num_double numeral_times_numeral,
        metis dvd_eq_mod_eq_0 dvd_trans four_dvd_hundred)
  have lhs: "days_before_year (y + 1) = 365 * (y - 1969) + a - b + c - 477"
    by (simp add: days_before_year_def a_def b_def c_def)
  have pred: "(y - 1) div 4 = a - (if y mod 4 = 0 then 1 else 0)"
    "(y - 1) div 100 = b - (if y mod 100 = 0 then 1 else 0)"
    "(y - 1) div 400 = c - (if y mod 400 = 0 then 1 else 0)"
    by (simp_all only: a_def b_def c_def div_pred [of 4 y] div_pred [of 100 y] div_pred [of 400 y]
          zero_less_numeral)
  show ?thesis
    unfolding lhs leap_year_def days_before_year_def [of y] pred
    by (cases "y mod 4 = 0"; cases "y mod 100 = 0"; cases "y mod 400 = 0") (use incl in simp_all)
qed
lemma days_before_year_mono:
  assumes "y \<le> z"
  shows "days_before_year y \<le> days_before_year z"
  using assms
proof (induction z rule: int_ge_induct)
  case base
  show ?case by simp
next
  case (step z)
  then show ?case by (simp add: days_before_year_Suc)
qed

text \<open>The day of a date lies before the first day of every later month and year.\<close>

lemma month_end:
  assumes "1 \<le> m" "m < n" "n \<le> 12"
  shows "days_before_month y m + days_in_month y m \<le> days_before_month y n"
  using assms days_before_month_Suc [of m y] days_before_month_mono [of "m + 1" n y] by simp

lemma year_end:
  assumes "1 \<le> m" "m \<le> 12"
  shows "days_before_month y m + days_in_month y m \<le> 365 + (if leap_year y then 1 else 0)"
proof -
  have "days_before_month y m + days_in_month y m
      \<le> days_before_month y 12 + days_in_month y 12"
    using assms month_end [of m 12 y] by (cases "m = 12") (auto simp: days_in_month_def)
  then show ?thesis by (simp add: days_before_month_def days_in_month_def)
qed

lemma day_number_less:
  assumes "y < y' \<or> y = y' \<and> (m < m' \<or> m = m' \<and> d < d')"
    and "1 \<le> m" "m \<le> 12" "d \<le> days_in_month y m" "1 \<le> m'" "m' \<le> 12" "1 \<le> d'"
  shows "days_before_year y + days_before_month y m + (d - 1)
       < days_before_year y' + days_before_month y' m' + (d' - 1)"
proof -
  consider "y < y'" | "y = y'" "m < m'" | "y = y'" "m = m'" "d < d'" using assms(1) by blast
  then show ?thesis
  proof cases
    case 1
    then have "days_before_year (y + 1) \<le> days_before_year y'"
      by (intro days_before_year_mono) simp
    moreover have "0 \<le> days_before_month y' m'"
      using days_before_month_mono [of 1 m' y'] assms(5,6) by (simp add: days_before_month_def)
    ultimately show ?thesis
      using year_end [of m y] assms(2,3,4,7) days_before_year_Suc [of y] by linarith
  next
    case 2
    then show ?thesis using month_end [of m m' y] assms by simp
  qed simp
qed

lemma epoch_seconds_less:
  assumes "valid_date y m d h mi s" "valid_date y' m' d' h' mi' s'"
    and "y < y' \<or> y = y' \<and> (m < m' \<or> m = m' \<and> (d < d' \<or> d = d' \<and>
          (h < h' \<or> h = h' \<and> (mi < mi' \<or> mi = mi' \<and> s < s'))))"
  shows "epoch_seconds y m d h mi s < epoch_seconds y' m' d' h' mi' s'"
proof -
  let ?n = "days_before_year y + days_before_month y m + (d - 1)"
  let ?n' = "days_before_year y' + days_before_month y' m' + (d' - 1)"
  have sod: "0 \<le> h' * 3600 + mi' * 60 + s'" "h * 3600 + mi * 60 + s < 86400"
    using assms(1,2) by (auto simp: valid_date_def)
  show ?thesis
  proof (cases "y = y' \<and> m = m' \<and> d = d'")
    case True
    then show ?thesis using assms by (auto simp: epoch_seconds_def valid_date_def)
  next
    case False
    then have "?n < ?n'"
      using assms by (intro day_number_less) (auto simp: valid_date_def)
    with sod show ?thesis by (simp add: epoch_seconds_def)
  qed
qed

subsection \<open>Dates as digits\<close>

definition digits2 :: "int \<Rightarrow> string" where
  "digits2 n = [digit_char (nat (n div 10)), digit_char (nat (n mod 10))]"

definition digits4 :: "int \<Rightarrow> string" where
  "digits4 n = digits2 (n div 100) @ digits2 (n mod 100)"

definition date_digits :: "int \<Rightarrow> int \<Rightarrow> int \<Rightarrow> int \<Rightarrow> int \<Rightarrow> int \<Rightarrow> string" where
  "date_digits y m d h mi s =
     digits4 y @ digits2 m @ digits2 d @ digits2 h @ digits2 mi @ digits2 s"

lemma char_digit_digit: "0 \<le> n \<Longrightarrow> n < 10 \<Longrightarrow> char_digit (digit_char (nat n)) = n"
proof -
  assume n: "0 \<le> n" "n < 10"
  have "digit_char (nat n) = char_of (48 + n)"
    using n char_of_nat [of "48 + nat n", where 'a = int] by (simp add: digit_char_def)
  then show ?thesis using n by (simp add: char_digit_def of_char_of)
qed

lemma digit_char_not_NUL: "n < 10 \<Longrightarrow> digit_char n \<noteq> CHR 0x00"
  using of_char_digit [of n] by auto

lemma days_in_month_le: "days_in_month y m \<le> 31"
  by (simp add: days_in_month_def)

lemma c_str_date:
  assumes "valid_date y m d h mi s"
  shows "c_str (date_digits y m d h mi s) = date_digits y m d h mi s"
proof -
  have "d \<le> 31" using assms days_in_month_le [of y m] by (simp add: valid_date_def)
  then have "\<forall>c \<in> set (date_digits y m d h mi s). c \<noteq> CHR 0x00"
    using assms by (auto simp: date_digits_def digits4_def digits2_def valid_date_def
        intro!: digit_char_not_NUL)
  then show ?thesis by (simp add: c_str_def takeWhile_eq_all_conv)
qed

text \<open>The fields a date fills in.\<close>

definition tm_has_date :: "tm \<Rightarrow> int \<Rightarrow> int \<Rightarrow> int \<Rightarrow> int \<Rightarrow> int \<Rightarrow> int \<Rightarrow> bool" where
  "tm_has_date tm y m d h mi s \<longleftrightarrow> tm_year tm = y - 1900 \<and> tm_mon tm = m - 1 \<and> tm_mday tm = d
     \<and> tm_hour tm = h \<and> tm_min tm = mi \<and> tm_sec tm = s"

lemma strptime_win_14:
  "strptime_win [y1, y2, y3, y4, m1, m2, d1, d2, h1, h2, n1, n2, s1, s2] x509fmt (Some tm) =
     Some (tm\<lparr>tm_year := char_digit y1 * 1000 + char_digit y2 * 100 + char_digit y3 * 10
             + char_digit y4 - 1900, tm_mon := char_digit m1 * 10 + char_digit m2 - 1,
           tm_mday := char_digit d1 * 10 + char_digit d2,
           tm_hour := char_digit h1 * 10 + char_digit h2,
           tm_min := char_digit n1 * 10 + char_digit n2,
           tm_sec := char_digit s1 * 10 + char_digit s2,
           tm_wday := 0, tm_yday := 0, tm_isdst := 0\<rparr>)"
  by (simp add: strptime_win_def Let_def)

lemma digits2_value:
  "0 \<le> n \<Longrightarrow> n \<le> 99 \<Longrightarrow> char_digit (digit_char (nat (n div 10))) * 10
      + char_digit (digit_char (nat (n mod 10))) = n"
  by (subst (1 2) char_digit_digit) auto

lemma digits4_value:
  assumes "0 \<le> y" "y \<le> 9999"
  shows "char_digit (digit_char (nat (y div 100 div 10))) * 1000
      + char_digit (digit_char (nat (y div 100 mod 10))) * 100
      + char_digit (digit_char (nat (y mod 100 div 10))) * 10
      + char_digit (digit_char (nat (y mod 100 mod 10))) = y"
proof -
  have sum: "\<lbrakk>a * 10 + b = hi; c * 10 + d = lo; 100 * hi + lo = y\<rbrakk> \<Longrightarrow>
      a * 1000 + b * 100 + c * 10 + d = y" for a b c d hi lo :: int by simp
  show ?thesis
    by (rule sum [OF digits2_value digits2_value mult_div_mod_eq]) (use assms in auto)
qed

lemma strptime_win_date:
  assumes "valid_date y m d h mi s"
  shows "\<exists>tm'. strptime_win (date_digits y m d h mi s) x509fmt (Some tm) = Some tm'
    \<and> tm_has_date tm' y m d h mi s"
proof -
  have rng: "0 \<le> y" "y \<le> 9999" "0 \<le> m" "m \<le> 99" "0 \<le> d" "d \<le> 99" "0 \<le> h" "h \<le> 99"
    "0 \<le> mi" "mi \<le> 99" "0 \<le> s" "s \<le> 99"
    using assms days_in_month_le [of y m] by (auto simp: valid_date_def)
  show ?thesis
    unfolding date_digits_def digits4_def digits2_def append_Cons append_Nil strptime_win_14
    by (rule exI, rule conjI, rule refl)
       (simp add: tm_has_date_def digits4_value [OF rng(1,2)] digits2_value [OF rng(3,4)]
          digits2_value [OF rng(5,6)] digits2_value [OF rng(7,8)] digits2_value [OF rng(9,10)]
          digits2_value [OF rng(11,12)])
qed

subsection \<open>What ParseASN1Time needs of the platform\<close>

locale strptime_impl =
  fixes strptime :: "string \<Rightarrow> string \<Rightarrow> tm option \<Rightarrow> tm option"
  assumes fills_date: "valid_date y m d h mi s \<Longrightarrow>
      \<exists>tm'. strptime (date_digits y m d h mi s) x509fmt (Some tm_zero) = Some tm'
        \<and> tm_has_date tm' y m d h mi s"

locale timegm_impl =
  fixes timegm :: "tm \<Rightarrow> int" and lo hi :: int
  assumes of_date: "\<lbrakk>tm_has_date tm y m d h mi s; valid_date y m d h mi s;
      lo \<le> epoch_seconds y m d h mi s; epoch_seconds y m d h mi s \<le> hi\<rbrakk> \<Longrightarrow>
      timegm tm = epoch_seconds y m d h mi s"

text \<open>A date written as a \<open>GeneralizedTime\<close>, and as a \<open>UTCTime\<close> (two digits of the year).\<close>

definition generalized_time :: "int \<Rightarrow> int \<Rightarrow> int \<Rightarrow> int \<Rightarrow> int \<Rightarrow> int \<Rightarrow> asn1_time" where
  "generalized_time y m d h mi s =
     \<lparr>at_type = V_ASN1_GENERALIZEDTIME, at_data = date_digits y m d h mi s @ ''Z''\<rparr>"

definition utc_time :: "int \<Rightarrow> int \<Rightarrow> int \<Rightarrow> int \<Rightarrow> int \<Rightarrow> int \<Rightarrow> asn1_time" where
  "utc_time y m d h mi s =
     \<lparr>at_type = V_ASN1_UTCTIME, at_data = drop 2 (date_digits y m d h mi s) @ ''Z''\<rparr>"

lemma generalized_time_buf:
  "asn1_time_buf (generalized_time y m d h mi s) = Some (date_digits y m d h mi s)"
  by (simp add: asn1_time_buf_def generalized_time_def date_digits_def digits4_def digits2_def)

lemma of_char_digit_int: "0 \<le> n \<Longrightarrow> n < 10 \<Longrightarrow> (of_char (digit_char (nat n)) :: nat) = 48 + nat n"
  using of_char_digit [of "nat n"] by simp

lemma div_less_ten: "n < 100 \<Longrightarrow> n div 10 < (10::int)"
  by presburger

lemma five_div_ten: "5 \<le> n div 10 \<longleftrightarrow> 50 \<le> (n::int)"
  by presburger

lemma nat_ge_five: "53 \<le> 48 + nat z \<longleftrightarrow> 5 \<le> z"
  by linarith

lemma utc_time_chars:
  "asn1_time_buf \<lparr>at_type = V_ASN1_UTCTIME, at_data = [y1, y2] @ digits2 m @ digits2 d @ digits2 h
       @ digits2 mi @ digits2 s @ ''Z''\<rparr> =
     Some ((if 53 \<le> (of_char y1 :: nat) then ''19'' else ''20'') @ [y1, y2] @ digits2 m @ digits2 d
       @ digits2 h @ digits2 mi @ digits2 s)"
  by (simp add: asn1_time_buf_def digits2_def)

lemma digits2_19_20: "digits2 19 = ''19''" "digits2 20 = ''20''"
  by (simp_all add: digits2_def digit_char_def char_of_def bit_Suc_0_iff)

lemma century_19: "1950 \<le> y \<Longrightarrow> y < 2000 \<Longrightarrow> y div 100 = 19 \<and> y mod 100 = y - (1900::int)"
  by (intro conjI int_div_pos_eq [of _ _ _ "y - 1900"] int_mod_pos_eq [of _ _ 19]) simp_all

lemma century_20: "2000 \<le> y \<Longrightarrow> y \<le> 2049 \<Longrightarrow> y div 100 = 20 \<and> y mod 100 = y - (2000::int)"
  by (intro conjI int_div_pos_eq [of _ _ _ "y - 2000"] int_mod_pos_eq [of _ _ 20]) simp_all

lemma utc_time_digits:
  assumes "digits2 hi = (if 50 \<le> lo then ''19'' else ''20'')" "0 \<le> lo" "lo < 100"
    and "hi = y div 100" "lo = y mod 100"
  shows "asn1_time_buf (utc_time y m d h mi s) = Some (date_digits y m d h mi s)"
proof -
  have "0 \<le> lo div 10" using assms(2) by (simp add: pos_imp_zdiv_nonneg_iff)
  then have "(of_char (digit_char (nat (lo div 10))) :: nat) = 48 + nat (lo div 10)"
    by (rule of_char_digit_int) (rule div_less_ten [OF assms(3)])
  then have "(53 \<le> (of_char (digit_char (nat (lo div 10))) :: nat)) = (50 \<le> lo)"
    by (simp only: nat_ge_five five_div_ten)
  moreover have "digits2 lo = [digit_char (nat (lo div 10)), digit_char (nat (lo mod 10))]"
    by (rule digits2_def)
  moreover have "utc_time y m d h mi s = \<lparr>at_type = V_ASN1_UTCTIME, at_data = digits2 lo
      @ digits2 m @ digits2 d @ digits2 h @ digits2 mi @ digits2 s @ ''Z''\<rparr>"
    by (simp add: utc_time_def date_digits_def digits4_def digits2_def assms(5))
  ultimately show ?thesis
    by (simp only: utc_time_chars append_assoc date_digits_def digits4_def assms(1)
        flip: assms(4,5))
qed

lemma utc_time_buf:
  assumes "1950 \<le> y" "y \<le> 2049"
  shows "asn1_time_buf (utc_time y m d h mi s) = Some (date_digits y m d h mi s)"
proof (cases "y < 2000")
  case True
  show ?thesis
    by (rule utc_time_digits [of 19 "y - 1900"])
       (use century_19 [OF assms(1) True] assms True in \<open>auto simp: digits2_19_20\<close>)
next
  case False
  then have "2000 \<le> y" by simp
  then show ?thesis
    by (intro utc_time_digits [of 20 "y - 2000"])
       (use century_20 [OF _ assms(2)] assms in \<open>auto simp: digits2_19_20\<close>)
qed

locale time_parser = strptime_impl strptime + timegm_impl timegm lo hi
  for strptime :: "string \<Rightarrow> string \<Rightarrow> tm option \<Rightarrow> tm option"
  and timegm :: "tm \<Rightarrow> int" and lo hi :: int
begin

lemma parse_date:
  assumes "asn1_time_buf time = Some (date_digits y m d h mi s)"
    and "valid_date y m d h mi s" "lo \<le> epoch_seconds y m d h mi s" "epoch_seconds y m d h mi s \<le> hi"
  shows "ParseASN1Time strptime timegm time = epoch_seconds y m d h mi s"
  using fills_date [OF assms(2)] of_date [OF _ assms(2-4)]
  by (auto simp: ParseASN1Time_def assms(1) c_str_date [OF assms(2)] simp flip: x509fmt_def)

lemmas parse_generalized = parse_date [OF generalized_time_buf]

lemmas parse_utc = parse_date [OF utc_time_buf]

end

text \<open>The C library's conversion of a broken-down UTC time, by POSIX's formula.\<close>

definition timegm_posix :: "tm \<Rightarrow> int" where
  "timegm_posix tm = epoch_seconds (tm_year tm + 1900) (tm_mon tm + 1) (tm_mday tm) (tm_hour tm)
     (tm_min tm) (tm_sec tm)"

lemma timegm_posix_impl: "timegm_impl timegm_posix lo hi"
  by unfold_locales (simp add: timegm_posix_def tm_has_date_def)

text \<open>Any platform's \<open>timegm64\<close> that is right gives Android's \<open>timegm\<close> the 32-bit range.\<close>

lemma timegm_android_impl:
  assumes "timegm_impl timegm64 INT32_MIN INT32_MAX"
  shows "timegm_impl (timegm_android timegm64) INT32_MIN INT32_MAX"
  by unfold_locales (simp add: timegm_android_def timegm_impl.of_date [OF assms])

interpretation win: strptime_impl strptime_win
  by unfold_locales (rule strptime_win_date)

interpretation android: timegm_impl "timegm_android timegm_posix" INT32_MIN INT32_MAX
  by (rule timegm_android_impl [OF timegm_posix_impl])

interpretation win: time_parser strptime_win "timegm_win timegm_posix" lo hi for lo hi
  by unfold_locales (simp add: timegm_win_def timegm_posix_def tm_has_date_def)

subsection \<open>Properties\<close>

text \<open>C24: with the Windows \<open>strptime\<close> and any \<open>_mkgmtime\<close> that is right between \<open>lo\<close> and \<open>hi\<close>,
  a \<open>GeneralizedTime\<close> and, for the years 1950 to 2049, the \<open>UTCTime\<close> of the same date parse to the
  seconds since the epoch: the century rule of the two-digit years is right.\<close>

theorem ParseASN1Time_dates:
  assumes "timegm_impl mkgmtime lo hi" and "valid_date y m d h mi s"
    and "lo \<le> epoch_seconds y m d h mi s" and "epoch_seconds y m d h mi s \<le> hi"
  shows "ParseASN1Time strptime_win (timegm_win mkgmtime) (generalized_time y m d h mi s)
           = epoch_seconds y m d h mi s
    \<and> (1950 \<le> y \<longrightarrow> y \<le> 2049 \<longrightarrow>
       ParseASN1Time strptime_win (timegm_win mkgmtime) (utc_time y m d h mi s)
           = epoch_seconds y m d h mi s)"
proof -
  have "timegm_win mkgmtime = mkgmtime" by (simp add: fun_eq_iff timegm_win_def)
  then have "time_parser strptime_win (timegm_win mkgmtime) lo hi"
    using assms(1) win.strptime_impl_axioms by (simp add: time_parser_def)
  from time_parser.parse_generalized [OF this assms(2-4)]
    time_parser.parse_utc [OF this _ _ assms(2-4)]
  show ?thesis by blast
qed

theorem ParseASN1Time_dates_witness:
  "ParseASN1Time strptime_win (timegm_win timegm_posix) (generalized_time 2038 1 19 3 14 7) = 2147483647
   \<and> ParseASN1Time strptime_win (timegm_win timegm_posix) (utc_time 2038 1 19 3 14 7) = 2147483647"
proof -
  have "valid_date 2038 1 19 3 14 7" by (simp add: valid_date_def days_in_month_def)
  moreover have "epoch_seconds 2038 1 19 3 14 7 = 2147483647"
    by (simp add: epoch_seconds_def days_before_year_def days_before_month_def)
  ultimately show ?thesis
    using ParseASN1Time_dates [OF timegm_posix_impl [of INT32_MIN INT32_MAX],
        of 2038 1 19 3 14 7] by simp
qed

text \<open>the parsed values order dates as the calendar does, so comparing them (as
  \<open>IsValidAtTime\<close> does) compares the dates of the certificate.\<close>

theorem ParseASN1Time_order:
  assumes "timegm_impl mkgmtime lo hi"
    and "valid_date y m d h mi s" and "valid_date y' m' d' h' mi' s'"
    and "lo \<le> epoch_seconds y m d h mi s" and "epoch_seconds y' m' d' h' mi' s' \<le> hi"
    and "y < y' \<or> y = y' \<and> (m < m' \<or> m = m' \<and> (d < d' \<or> d = d' \<and>
          (h < h' \<or> h = h' \<and> (mi < mi' \<or> mi = mi' \<and> s < s'))))"
  shows "ParseASN1Time strptime_win (timegm_win mkgmtime) (generalized_time y m d h mi s)
       < ParseASN1Time strptime_win (timegm_win mkgmtime) (generalized_time y' m' d' h' mi' s')"
proof -
  have tp: "time_parser strptime_win (timegm_win mkgmtime) lo hi"
    using assms(1) win.strptime_impl_axioms by (simp add: time_parser_def timegm_win_def [abs_def])
  have less: "epoch_seconds y m d h mi s < epoch_seconds y' m' d' h' mi' s'"
    by (rule epoch_seconds_less [OF assms(2,3,6)])
  show ?thesis
    using time_parser.parse_generalized [OF tp assms(2,4)]
      time_parser.parse_generalized [OF tp assms(3) _ assms(5)] less assms(4,5) by simp
qed

theorem ParseASN1Time_order_witness:
  "ParseASN1Time strptime_win (timegm_win timegm_posix) (generalized_time 2012 2 29 23 59 59)
   < ParseASN1Time strptime_win (timegm_win timegm_posix) (generalized_time 2012 3 1 0 0 0)"
  by (rule ParseASN1Time_order [OF timegm_posix_impl [of 0 INT32_MAX]])
     (simp_all add: valid_date_def days_in_month_def leap_year_def epoch_seconds_def
        days_before_year_def days_before_month_def)

text \<open>times that are not a \<open>UTCTime\<close> of thirteen bytes or a \<open>GeneralizedTime\<close> of fifteen,
  ending in Z, parse to 0, whatever the platform, and so do times its \<open>strptime\<close> rejects.\<close>

theorem ParseASN1Time_rejects:
  assumes "\<not> (at_type time = V_ASN1_UTCTIME \<and> length (at_data time) = 13 \<and> last (at_data time) = CHR ''Z'')"
    and "\<not> (at_type time = V_ASN1_GENERALIZEDTIME \<and> length (at_data time) = 15
           \<and> last (at_data time) = CHR ''Z'')
         \<or> strptime (c_str (butlast (at_data time))) x509fmt (Some tm_zero) = None"
  shows "ParseASN1Time strptime timegm time = 0"
proof -
  have last: "length xs = Suc n \<Longrightarrow> last xs = xs ! n" for xs :: string and n
    by (cases xs) (auto simp: last_conv_nth)
  show ?thesis
    using assms last [of "at_data time" 12] last [of "at_data time" 14]
    by (auto simp: ParseASN1Time_def asn1_time_buf_def butlast_conv_take simp flip: x509fmt_def)
qed

theorem ParseASN1Time_rejects_witness:
  "ParseASN1Time strptime_win (timegm_win timegm_posix)
     \<lparr>at_type = V_ASN1_UTCTIME, at_data = ''130101000000+0000''\<rparr> = 0"
  by (rule ParseASN1Time_rejects) simp_all

text \<open>C30: on Android, with any \<open>strptime\<close> that fills in dates and any \<open>timegm64\<close> that is right
  over the years 0 to 9999, dates that fit a 32-bit \<open>time_t\<close> parse to their seconds since the epoch and
  every other date, before it or after it, parses to the earliest time of all.\<close>

theorem ParseASN1Time_android:
  assumes "strptime_impl strptime" and "timegm_impl timegm64 lo hi" and "valid_date y m d h mi s"
    and "lo \<le> epoch_seconds y m d h mi s" and "epoch_seconds y m d h mi s \<le> hi"
  shows "ParseASN1Time strptime (timegm_android timegm64) (generalized_time y m d h mi s) =
    (if INT32_MIN \<le> epoch_seconds y m d h mi s \<and> epoch_seconds y m d h mi s \<le> INT32_MAX
     then epoch_seconds y m d h mi s else INT32_MIN)"
proof -
  have "time_parser strptime timegm64 lo hi" using assms(1,2) by (simp add: time_parser_def)
  then have "ParseASN1Time strptime timegm64 (generalized_time y m d h mi s) = epoch_seconds y m d h mi s"
    by (rule time_parser.parse_generalized [OF _ assms(3-5)])
  moreover obtain tm where "strptime (date_digits y m d h mi s) x509fmt (Some tm_zero) = Some tm"
    using strptime_impl.fills_date [OF assms(1,3)] by blast
  ultimately show ?thesis
    by (auto simp: ParseASN1Time_def generalized_time_buf c_str_date [OF assms(3)]
        timegm_android_def Let_def simp flip: x509fmt_def)
qed

theorem ParseASN1Time_android_witness:
  "ParseASN1Time strptime_win (timegm_android timegm_posix) (generalized_time 2038 1 19 3 14 8) = INT32_MIN"
proof -
  have "valid_date 2038 1 19 3 14 8" by (simp add: valid_date_def days_in_month_def)
  moreover have "epoch_seconds 2038 1 19 3 14 8 = 2147483648"
    by (simp add: epoch_seconds_def days_before_year_def days_before_month_def)
  ultimately show ?thesis
    using ParseASN1Time_android [OF win.strptime_impl_axioms timegm_posix_impl [of 0 2147483648],
        of 2038 1 19 3 14 8] by simp
qed

text \<open>C31: the Windows \<open>strptime\<close> checks only the length: no time of the right length and ending
  is rejected, whatever its characters, and \<open>ParseASN1Time\<close> returns what \<open>_mkgmtime\<close> makes of the
  numbers they stand for.\<close>

theorem strptime_win_unchecked:
  assumes "length ds = 14" and "CHR 0x00 \<notin> set ds"
  shows "\<exists>tm. strptime_win ds x509fmt (Some tm_zero) = Some tm
    \<and> tm_mon tm = char_digit (ds ! 4) * 10 + char_digit (ds ! 5) - 1
    \<and> ParseASN1Time strptime_win (timegm_win mkgmtime)
        \<lparr>at_type = V_ASN1_GENERALIZEDTIME, at_data = ds @ ''Z''\<rparr> = mkgmtime tm"
proof -
  have "c_str ds = ds" using assms(2) by (auto simp: c_str_def takeWhile_eq_all_conv)
  moreover have "asn1_time_buf \<lparr>at_type = V_ASN1_GENERALIZEDTIME, at_data = ds @ ''Z''\<rparr> = Some ds"
    using assms(1) by (simp add: asn1_time_buf_def nth_append)
  ultimately show ?thesis
    using assms(1)
    by (auto simp: ParseASN1Time_def timegm_win_def strptime_win_def Let_def x509fmt_def)
qed

theorem strptime_win_unchecked_witness:
  "\<exists>tm. strptime_win ''2013XX01000000'' x509fmt (Some tm_zero) = Some tm
    \<and> tm_mon tm = char_digit CHR ''X'' * 10 + char_digit CHR ''X'' - 1"
  using strptime_win_unchecked [of "''2013XX01000000''"] by auto

text \<open>C32: \<open>FileTimeFromStdTimeT\<close> is exact: for the times from 1601 whose count of 100 ns units fits
  64 bits, the two halves hold \<open>(time + 11644473600) * 10 ^ 7\<close>.\<close>

theorem FileTimeFromStdTimeT_exact:
  assumes "0 \<le> t + 11644473600" and "(t + 11644473600) * 10 ^ 7 < 2 ^ 64"
  shows "let ft = FileTimeFromStdTimeT (word_of_int t)
    in uint (dwHighDateTime ft) * 2 ^ 32 + uint (dwLowDateTime ft) = (t + 11644473600) * 10 ^ 7"
proof -
  define q :: "64 word" where "q = word_of_int ((t + 11644473600) * 10 ^ 7)"
  have "(11644473600 + word_of_int t) * 10000000 = q"
    by (simp add: q_def add.commute flip: wi_hom_add wi_hom_mult)
  then have ft: "FileTimeFromStdTimeT (word_of_int t) =
      \<lparr>dwLowDateTime = ucast q, dwHighDateTime = ucast (drop_bit 32 q)\<rparr>"
    by (simp add: FileTimeFromStdTimeT_def Let_def)
  have q: "uint q = (t + 11644473600) * 10 ^ 7"
    unfolding q_def uint_word_of_int by (rule mod_pos_pos_trivial) (use assms in simp_all)
  have hi: "uint q div 2 ^ 32 < 2 ^ 32" using uint_lt2p [of q] by simp
  have "uint (ucast (drop_bit 32 q) :: 32 word) = uint q div 2 ^ 32"
    using hi by (simp add: unsigned_ucast_eq take_bit_eq_mod uint_div_distrib drop_bit_eq_div
        pos_imp_zdiv_nonneg_iff)
  moreover have "uint (ucast q :: 32 word) = uint q mod 2 ^ 32"
    by (simp add: unsigned_ucast_eq take_bit_eq_mod)
  ultimately show ?thesis by (simp add: ft q div_mult_mod_eq)
qed

theorem FileTimeFromStdTimeT_exact_witness:
  "let ft = FileTimeFromStdTimeT (word_of_int 0)
   in uint (dwHighDateTime ft) * 2 ^ 32 + uint (dwLowDateTime ft) = 116444736000000000"
  using FileTimeFromStdTimeT_exact [of 0] by simp

end
