(* ===== verification/Certificates.thy ===== *)
theory Certificates
  imports ByteArrays Asn1Time
begin

section \<open>X509Certificate\<close>

text \<open>
  \<open>X509Certificate\<close> and \<open>X509CertificatePrivate\<close> of \<open>src/X509Certificate.cpp\<close> and
  \<open>src/X509Certificate_p.cpp\<close>. A certificate keeps the DER bytes it was made from and the items
  \<open>ExtractCertificateInfo\<close> read out of them.

  OpenSSL is the record \<open>x509_api\<close>, an argument of every definition that calls it. Its handles
  (\<open>X509 *\<close>, \<open>EVP_PKEY *\<close>, \<open>X509_NAME *\<close>, \<open>ASN1_STRING *\<close>, ...) are values of one type \<open>'h\<close>; a
  function that may return a null pointer returns an option. Reference counts and frees are not
  modelled. What OpenSSL documents of encoding and decoding is the hypothesis \<open>x509_codec\<close>.
\<close>

subsection \<open>OpenSSL\<close>

text \<open>The object identifiers the source names; its \<open>SN_\<close> macros are their short names.\<close>

datatype nid =
    NID_undef
  | NID_commonName
  | NID_localityName
  | NID_stateOrProvinceName
  | NID_organizationName
  | NID_organizationalUnitName
  | NID_countryName
  | NID_streetAddress
  | NID_domainComponent
  | NID_userId
  | NID_other nat

datatype general_name_type = GEN_DNS | GEN_EMAIL | GEN_OTHER nat

text \<open>The extensions the generated certificates carry.\<close>

datatype ext_nid =
    NID_basic_constraints
  | NID_ext_key_usage
  | NID_subject_key_identifier
  | NID_netscape_comment
  | NID_subject_alt_name

text \<open>The digests of signatures, and the public exponent that \<open>RSA_F4\<close> names.\<close>

datatype evp_md = EVP_sha1 | EVP_sha256

definition RSA_F4 :: int where
  "RSA_F4 = 65537"

text \<open>An \<open>X509\<close> under construction: what the setters of OpenSSL the source calls have stored in it.\<close>

record 'h x509_build =
  xb_version :: int
  xb_serial :: int
  xb_not_before :: int
  xb_not_after :: int
  xb_pubkey :: "'h option"
  xb_subject :: "(string \<times> string) list"
  xb_issuer :: "(string \<times> string) list"
  xb_exts :: "'h list"

record 'h x509_api =
  d2i_X509 :: "cell list \<Rightarrow> 'h option"
  i2d_X509 :: "'h \<Rightarrow> cell list"
  i2d_X509_fails :: "'h \<Rightarrow> bool"
  X509_get_subject_name :: "'h \<Rightarrow> 'h"
  X509_get_issuer_name :: "'h \<Rightarrow> 'h"
  X509_get_notBefore :: "'h \<Rightarrow> asn1_time option"
  X509_get_notAfter :: "'h \<Rightarrow> asn1_time option"
  X509_get_alt_names :: "'h \<Rightarrow> (general_name_type \<times> 'h) list"
  X509_NAME_entries :: "'h \<Rightarrow> 'h option list"
  X509_NAME_ENTRY_get_object :: "'h \<Rightarrow> 'h option"
  X509_NAME_ENTRY_get_data :: "'h \<Rightarrow> 'h option"
  OBJ_obj2nid :: "'h \<Rightarrow> nid"
  ASN1_STRING_to_UTF8 :: "'h \<Rightarrow> string option"
  X509_verify :: "'h \<Rightarrow> 'h option \<Rightarrow> int"
  X509_get_pubkey :: "'h \<Rightarrow> 'h option"
  X509_check_private_key :: "'h \<Rightarrow> 'h \<Rightarrow> int"
  d2i_AutoPrivateKey :: "cell list \<Rightarrow> 'h option"
  i2d_PrivateKey :: "'h \<Rightarrow> cell list"
  PKCS12_create :: "string option \<Rightarrow> string \<Rightarrow> 'h option \<Rightarrow> 'h \<Rightarrow> 'h option list \<Rightarrow> 'h option"
  i2d_PKCS12 :: "'h \<Rightarrow> cell list"
  d2i_PKCS12 :: "cell list \<Rightarrow> 'h option"
  PKCS12_parse :: "'h \<Rightarrow> string option \<Rightarrow> int \<times> 'h option \<times> 'h option \<times> 'h list option"
  EVP_get_digestbyname :: "string \<Rightarrow> 'h option"
  EVP_MD_size :: "'h \<Rightarrow> int"
  EVP_MD_CTX_create :: "'h option"
  EVP_digest :: "'h \<Rightarrow> cell list \<Rightarrow> cell list"
  RSA_generate_key :: "int \<Rightarrow> int \<Rightarrow> 'h"
  X509V3_EXT_conf_nid :: "'h x509_build \<Rightarrow> ext_nid \<Rightarrow> string \<Rightarrow> 'h option"
  X509_sign :: "'h x509_build \<Rightarrow> 'h \<Rightarrow> evp_md \<Rightarrow> 'h"
  x_strptime :: "string \<Rightarrow> string \<Rightarrow> tm option \<Rightarrow> tm option"
  x_timegm :: "tm \<Rightarrow> int"

subsection \<open>Strings and names\<close>

fun StringFromDNAttributeType_nid :: "nid \<Rightarrow> string" where
  "StringFromDNAttributeType_nid NID_commonName = ''CN''"
| "StringFromDNAttributeType_nid NID_localityName = ''L''"
| "StringFromDNAttributeType_nid NID_stateOrProvinceName = ''ST''"
| "StringFromDNAttributeType_nid NID_organizationName = ''O''"
| "StringFromDNAttributeType_nid NID_organizationalUnitName = ''OU''"
| "StringFromDNAttributeType_nid NID_countryName = ''C''"
| "StringFromDNAttributeType_nid NID_streetAddress = ''street''"
| "StringFromDNAttributeType_nid NID_domainComponent = ''DC''"
| "StringFromDNAttributeType_nid NID_userId = ''UID''"
| "StringFromDNAttributeType_nid _ = []"

definition StringFromDNAttributeType :: "('h, 'z) x509_api_scheme \<Rightarrow> 'h \<Rightarrow> string" where
  "StringFromDNAttributeType api obj =
     (let nid = OBJ_obj2nid api obj
      in if nid \<noteq> NID_undef then StringFromDNAttributeType_nid nid else [])"

definition StringFromASN1String :: "('h, 'z) x509_api_scheme \<Rightarrow> 'h \<Rightarrow> string" where
  "StringFromASN1String api str =
     (case ASN1_STRING_to_UTF8 api str of None \<Rightarrow> [] | Some out \<Rightarrow> out)"

text \<open>
  The loop of \<open>ParseX509Name\<close> over the remaining entries. \<open>std::map::insert\<close> keeps the value of a
  key it already has.
\<close>

fun ParseX509Name_loop ::
    "('h, 'z) x509_api_scheme \<Rightarrow> 'h option list \<Rightarrow> (string \<rightharpoonup> string) \<Rightarrow> (string \<rightharpoonup> string)" where
  "ParseX509Name_loop api [] items = items"
| "ParseX509Name_loop api (None # nes) items = Map.empty"
| "ParseX509Name_loop api (Some ne # nes) items =
     (case X509_NAME_ENTRY_get_object api ne of
        None \<Rightarrow> Map.empty
      | Some obj \<Rightarrow>
          (case X509_NAME_ENTRY_get_data api ne of
             None \<Rightarrow> Map.empty
           | Some val \<Rightarrow>
               (let attributeName = StringFromDNAttributeType api obj
                in if attributeName = [] then Map.empty
                   else (let attributeValue = StringFromASN1String api val
                         in if attributeValue = [] then Map.empty
                            else ParseX509Name_loop api nes
                              (if items attributeName = None
                               then items(attributeName \<mapsto> attributeValue) else items)))))"

definition ParseX509Name :: "('h, 'z) x509_api_scheme \<Rightarrow> 'h \<Rightarrow> (string \<rightharpoonup> string)" where
  "ParseX509Name api name = ParseX509Name_loop api (X509_NAME_entries api name) Map.empty"

subsection \<open>The certificate\<close>

text \<open>The times are \<open>None\<close> until they are first assigned: no constructor initialises them.\<close>

record x509cert =
  subject_items :: "string \<rightharpoonup> string"
  issuer_items :: "string \<rightharpoonup> string"
  email_addrs :: "string list"
  dns_names :: "string list"
  cert_der :: bytearray
  priv_der :: bytearray
  not_before :: "int option"
  not_after :: "int option"

definition X509Certificate_new :: x509cert where
  "X509Certificate_new = \<lparr>subject_items = Map.empty, issuer_items = Map.empty, email_addrs = [],
     dns_names = [], cert_der = ByteArray_null, priv_der = ByteArray_null,
     not_before = None, not_after = None\<rparr>"

text \<open>\<open>AsOpenSSLX509\<close> decodes the first \<open>Length()\<close> bytes of the stored DER.\<close>

definition AsOpenSSLX509 :: "('h, 'z) x509_api_scheme \<Rightarrow> x509cert \<Rightarrow> 'h option" where
  "AsOpenSSLX509 api c = d2i_X509 api (content (cert_der c))"

text \<open>One iteration of the loop over the subject's alternative names.\<close>

definition ExtractAltName ::
    "('h, 'z) x509_api_scheme \<Rightarrow> general_name_type \<times> 'h \<Rightarrow> x509cert \<Rightarrow> x509cert" where
  "ExtractAltName api name c =
     (case fst name of
        GEN_DNS \<Rightarrow>
          (let dns = StringFromASN1String api (snd name)
           in if dns \<noteq> [] then c\<lparr>dns_names := dns_names c @ [dns]\<rparr> else c)
      | GEN_EMAIL \<Rightarrow>
          (let email = StringFromASN1String api (snd name)
           in if email \<noteq> [] then c\<lparr>email_addrs := email_addrs c @ [email]\<rparr> else c)
      | GEN_OTHER _ \<Rightarrow> c)"

definition ExtractCertificateInfo :: "('h, 'z) x509_api_scheme \<Rightarrow> x509cert \<Rightarrow> x509cert" where
  "ExtractCertificateInfo api c =
     (case d2i_X509 api (content (cert_der c)) of
        None \<Rightarrow> c
      | Some x509 \<Rightarrow>
          (let c = c\<lparr>subject_items := ParseX509Name api (X509_get_subject_name api x509)\<rparr>;
               c = c\<lparr>issuer_items := ParseX509Name api (X509_get_issuer_name api x509)\<rparr>;
               c = (case X509_get_notBefore api x509 of
                      None \<Rightarrow> c
                    | Some t \<Rightarrow> c\<lparr>not_before := Some (ParseASN1Time (x_strptime api) (x_timegm api) t)\<rparr>);
               c = (case X509_get_notAfter api x509 of
                      None \<Rightarrow> c
                    | Some t \<Rightarrow> c\<lparr>not_after := Some (ParseASN1Time (x_strptime api) (x_timegm api) t)\<rparr>)
           in fold (ExtractAltName api) (X509_get_alt_names api x509) c))"

definition FromRawDERData ::
    "('h, 'z) x509_api_scheme \<Rightarrow> bytearray \<Rightarrow> bytearray \<Rightarrow> x509cert res" where
  "FromRawDERData api cert pkey =
     (let tmp = X509Certificate_new in
      bindR (ByteArray_assign (cert_der tmp) cert) (\<lambda>(cert', _).
      bindR (ByteArray_assign (priv_der tmp) pkey) (\<lambda>(pkey', _).
        Inr (ExtractCertificateInfo api (tmp\<lparr>cert_der := cert', priv_der := pkey'\<rparr>)))))"

text \<open>The copy constructor copies the bytes and extracts the rest again.\<close>

definition X509Certificate_copy :: "('h, 'z) x509_api_scheme \<Rightarrow> x509cert \<Rightarrow> x509cert res" where
  "X509Certificate_copy api cert =
     (let this = X509Certificate_new in
      bindR (ByteArray_assign (cert_der this) (cert_der cert)) (\<lambda>(cert', _).
      bindR (ByteArray_assign (priv_der this) (priv_der cert)) (\<lambda>(priv', _).
        Inr (ExtractCertificateInfo api (this\<lparr>cert_der := cert', priv_der := priv'\<rparr>)))))"

text \<open>\<open>operator=\<close> takes a copy and swaps: the new value of \<open>*this\<close>.\<close>

definition X509Certificate_assign ::
    "('h, 'z) x509_api_scheme \<Rightarrow> x509cert \<Rightarrow> x509cert \<Rightarrow> x509cert res" where
  "X509Certificate_assign api this cert =
     bindR (X509Certificate_copy api cert) (\<lambda>tmp. let (this', tmp') = (tmp, this) in Inr this')"

definition HasCertificate :: "x509cert \<Rightarrow> bool" where
  "HasCertificate c \<longleftrightarrow> \<not> IsNull (cert_der c)"

definition HasPrivateKey :: "x509cert \<Rightarrow> bool" where
  "HasPrivateKey c \<longleftrightarrow> \<not> IsNull (priv_der c)"

subsection \<open>Reading a certificate\<close>

definition lookup_item :: "(string \<rightharpoonup> string) \<Rightarrow> string \<Rightarrow> string" where
  "lookup_item items item = (case items item of None \<Rightarrow> [] | Some v \<Rightarrow> v)"

definition CommonName :: "x509cert \<Rightarrow> string" where
  "CommonName c = lookup_item (subject_items c) ''CN''"

definition EmailAddress :: "x509cert \<Rightarrow> string" where
  "EmailAddress c = (if length (email_addrs c) > 0 then hd (email_addrs c) else [])"

definition DNSNames :: "x509cert \<Rightarrow> string list" where
  "DNSNames c = dns_names c"

definition SubjectName :: "x509cert \<Rightarrow> string" where
  "SubjectName c =
     (let cn = CommonName c in
      if cn \<noteq> [] then cn
      else if length (dns_names c) > 0 then hd (dns_names c)
      else if length (email_addrs c) > 0 then hd (email_addrs c)
      else [])"

definition IssuerName :: "x509cert \<Rightarrow> string" where
  "IssuerName c = lookup_item (issuer_items c) ''CN''"

definition LookupIssuerItem :: "x509cert \<Rightarrow> string \<Rightarrow> string" where
  "LookupIssuerItem c item = lookup_item (issuer_items c) item"

definition LookupSubjectItem :: "x509cert \<Rightarrow> string \<Rightarrow> string" where
  "LookupSubjectItem c item = lookup_item (subject_items c) item"

text \<open>Reading a member no constructor and no extraction has assigned is the fault \<open>Uninit\<close>.\<close>

definition NotBeforeTime :: "x509cert \<Rightarrow> int res" where
  "NotBeforeTime c = (case not_before c of None \<Rightarrow> Inl Uninit | Some t \<Rightarrow> Inr t)"

definition NotAfterTime :: "x509cert \<Rightarrow> int res" where
  "NotAfterTime c = (case not_after c of None \<Rightarrow> Inl Uninit | Some t \<Rightarrow> Inr t)"

definition IsValidAtTime :: "x509cert \<Rightarrow> int \<Rightarrow> bool res" where
  "IsValidAtTime c time =
     bindR (NotBeforeTime c) (\<lambda>nb.
       if time \<ge> nb then bindR (NotAfterTime c) (\<lambda>na. Inr (time \<le> na)) else Inr False)"

definition Digest :: "('h, 'z) x509_api_scheme \<Rightarrow> string \<Rightarrow> x509cert \<Rightarrow> bytearray res" where
  "Digest api name c =
     (case EVP_get_digestbyname api name of
        None \<Rightarrow> Inr ByteArray_null
      | Some md \<Rightarrow>
          (let ba = ByteArray_len (EVP_MD_size api md)
           in case EVP_MD_CTX_create api of
                None \<Rightarrow> Inr ByteArray_null
              | Some ctx \<Rightarrow> Data_write ba 0 (EVP_digest api md (content (cert_der c)))))"

definition SHA1Digest :: "('h, 'z) x509_api_scheme \<Rightarrow> x509cert \<Rightarrow> bytearray res" where
  "SHA1Digest api c = Digest api ''sha1'' c"

definition SHA256Digest :: "('h, 'z) x509_api_scheme \<Rightarrow> x509cert \<Rightarrow> bytearray res" where
  "SHA256Digest api c = Digest api ''sha256'' c"

definition IsSignedBy :: "('h, 'z) x509_api_scheme \<Rightarrow> x509cert \<Rightarrow> x509cert \<Rightarrow> bool" where
  "IsSignedBy api c parent =
     (case (AsOpenSSLX509 api c, AsOpenSSLX509 api parent) of
        (Some us, Some it) \<Rightarrow> X509_verify api us (X509_get_pubkey api it) = 1
      | _ \<Rightarrow> False)"

subsection \<open>Making certificates\<close>

text \<open>
  The source encodes in two calls: the first returns the length, a \<open>ByteArray\<close> of that length is
  made, and the second writes through its \<open>Data()\<close>.
\<close>

definition der_array :: "cell list \<Rightarrow> bytearray res" where
  "der_array der = Data_write (ByteArray_len (int (length der))) 0 der"

definition add_ext ::
    "('h, 'z) x509_api_scheme \<Rightarrow> 'h x509_build \<Rightarrow> ext_nid \<Rightarrow> string \<Rightarrow> int \<times> 'h x509_build" where
  "add_ext api crt nid value =
     (case X509V3_EXT_conf_nid api crt nid value of
        None \<Rightarrow> (0, crt)
      | Some ex \<Rightarrow> (1, crt\<lparr>xb_exts := xb_exts crt @ [ex]\<rparr>))"

definition X509_new :: "'h x509_build" where
  "X509_new = \<lparr>xb_version = 0, xb_serial = 0, xb_not_before = 0, xb_not_after = 0,
     xb_pubkey = None, xb_subject = [], xb_issuer = [], xb_exts = []\<rparr>"

text \<open>
  What \<open>GenerateSelfSignedCertificate\<close> stores in the new \<open>X509\<close> before it signs it, with the key
  pair it generated. The validity times are offsets from now. That OpenSSL has no memory or no
  randomness for the objects, the key or the signature, which the source does not check, is not
  modelled; that an extension cannot be made is.
\<close>

definition self_signed_build ::
    "('h, 'z) x509_api_scheme \<Rightarrow> string \<Rightarrow> string \<Rightarrow> 'h \<Rightarrow> 'h x509_build" where
  "self_signed_build api name email keypair =
     (let x509 = X509_new\<lparr>xb_version := 2\<rparr>;
          x509 = x509\<lparr>xb_serial := 1\<rparr>;
          x509 = x509\<lparr>xb_not_before := 0\<rparr>;
          x509 = x509\<lparr>xb_not_after := 60 * 60 * 24 * 365 * 20\<rparr>;
          x509 = x509\<lparr>xb_pubkey := Some keypair\<rparr>;
          common_name = (if name = [] then ''Mumble User'' else name);
          alt_name_email = (if email \<noteq> [] then ''email:'' @ email else []);
          x509 = x509\<lparr>xb_subject := xb_subject x509 @ [(''CN'', c_str common_name)]\<rparr>;
          x509 = x509\<lparr>xb_issuer := xb_subject x509\<rparr>;
          x509 = snd (add_ext api x509 NID_basic_constraints ''critical,CA:FALSE'');
          x509 = snd (add_ext api x509 NID_ext_key_usage ''clientAuth'');
          x509 = snd (add_ext api x509 NID_subject_key_identifier ''hash'');
          x509 = snd (add_ext api x509 NID_netscape_comment ''Generated by Mumble'')
      in if alt_name_email \<noteq> []
         then snd (add_ext api x509 NID_subject_alt_name (c_str alt_name_email)) else x509)"

definition GenerateSelfSignedCertificate ::
    "('h, 'z) x509_api_scheme \<Rightarrow> string \<Rightarrow> string \<Rightarrow> x509cert res" where
  "GenerateSelfSignedCertificate api name email =
     (let keypair = RSA_generate_key api 2048 RSA_F4;
          x509 = X509_sign api (self_signed_build api name email keypair) keypair EVP_sha1
      in bindR (der_array (i2d_X509 api x509)) (\<lambda>cert_der.
         bindR (der_array (i2d_PrivateKey api keypair)) (\<lambda>priv_der.
           FromRawDERData api cert_der priv_der)))"

subsection \<open>PKCS #12\<close>

text \<open>The certificates after the leaf: those without a certificate are left out.\<close>

definition extra_certs ::
    "('h, 'z) x509_api_scheme \<Rightarrow> x509cert list \<Rightarrow> 'h option list" where
  "extra_certs api rest = map (AsOpenSSLX509 api) (filter HasCertificate rest)"

definition ExportCertificateChainAsPKCS12 ::
    "('h, 'z) x509_api_scheme \<Rightarrow> x509cert list \<Rightarrow> string \<Rightarrow> bytearray res" where
  "ExportCertificateChainAsPKCS12 api chain password =
     (case chain of
        [] \<Rightarrow> Inr ByteArray_null
      | leaf # rest \<Rightarrow>
          if \<not> HasCertificate leaf then Inr ByteArray_null
          else
            (let pkey = (if ba_buf (priv_der leaf) \<noteq> None
                         then d2i_AutoPrivateKey api (content (priv_der leaf)) else None)
             in case AsOpenSSLX509 api leaf of
                  None \<Rightarrow> Inr ByteArray_null
                | Some x509 \<Rightarrow>
                    if (case pkey of Some k \<Rightarrow> X509_check_private_key api x509 k \<noteq> 0 | None \<Rightarrow> True)
                    then (let certs = extra_certs api rest;
                              password_cstr = (if password \<noteq> [] then Some (c_str password) else None)
                          in case PKCS12_create api password_cstr ''Mumble Identity'' pkey x509 certs of
                               None \<Rightarrow> Inr ByteArray_null
                             | Some pkcs \<Rightarrow>
                                 (let buf = i2d_PKCS12 api pkcs
                                  in ByteArray_buf (Some buf) (int (length buf)) (-1)))
                    else Inr ByteArray_null))"

text \<open>
  The loop that pops the certificates off the stack, from its last one to its first.
\<close>

fun FromPKCS12_loop ::
    "('h, 'z) x509_api_scheme \<Rightarrow> 'h list \<Rightarrow> x509cert list \<Rightarrow> x509cert list res" where
  "FromPKCS12_loop api [] out_certs = Inr out_certs"
| "FromPKCS12_loop api (x509 # popped) out_certs =
     bindR (der_array (i2d_X509 api x509)) (\<lambda>leaf_der.
     bindR (FromRawDERData api leaf_der ByteArray_null) (\<lambda>c.
       FromPKCS12_loop api popped (out_certs @ [c])))"

text \<open>The branches on what \<open>PKCS12_parse\<close> returned, up to the extraction of the stack.\<close>

definition FromPKCS12_leaf ::
    "('h, 'z) x509_api_scheme \<Rightarrow> int \<Rightarrow> 'h option \<Rightarrow> 'h option \<Rightarrow> 'h list option \<Rightarrow>
       x509cert list res" where
  "FromPKCS12_leaf api ret pkey x509 certs =
     (if ret = 1 \<and> certs \<noteq> None \<and> x509 = None \<and> pkey = None then Inr []
      else if ret = 1 \<and> x509 \<noteq> None \<and> pkey \<noteq> None
      then (if X509_check_private_key api (the x509) (the pkey) > 0
            then bindR (der_array (i2d_PrivateKey api (the pkey))) (\<lambda>pkey_der.
                 bindR (der_array (i2d_X509 api (the x509))) (\<lambda>leaf_der.
                 bindR (FromRawDERData api leaf_der pkey_der) (\<lambda>c. Inr [c])))
            else Inr [])
      else assertR (ret = 0) (assertR (x509 = None) (assertR (pkey = None)
             (assertR (certs = None) (Inr [])))))"

definition FromPKCS12 ::
    "('h, 'z) x509_api_scheme \<Rightarrow> bytearray \<Rightarrow> string \<Rightarrow> x509cert list res" where
  "FromPKCS12 api pkcs12 password =
     (if IsNull pkcs12 then Inr []
      else
        (case d2i_PKCS12 api (content pkcs12) of
           None \<Rightarrow> Inr []
         | Some pkcs \<Rightarrow>
             (let first = PKCS12_parse api pkcs (Some (c_str password));
                  (ret, pkey, x509, certs) =
                    (if fst first = 0 \<and> password = [] then PKCS12_parse api pkcs None else first)
              in bindR (FromPKCS12_leaf api ret pkey x509 certs) (\<lambda>out_certs.
                   case certs of
                     None \<Rightarrow> Inr out_certs
                   | Some stack \<Rightarrow>
                       if (length out_certs = 0 \<and> x509 = None) \<or> (length out_certs = 1 \<and> x509 \<noteq> None)
                       then FromPKCS12_loop api (rev stack) out_certs
                       else Inr out_certs))))"

subsection \<open>Names\<close>

text \<open>What an entry of a name contributes, or \<open>None\<close> where \<open>ParseX509Name\<close> gives up.\<close>

definition entry_item :: "('h, 'z) x509_api_scheme \<Rightarrow> 'h option \<Rightarrow> (string \<times> string) option" where
  "entry_item api e =
     (case e of None \<Rightarrow> None | Some ne \<Rightarrow>
        (case (X509_NAME_ENTRY_get_object api ne, X509_NAME_ENTRY_get_data api ne) of
           (Some obj, Some val) \<Rightarrow>
             (if StringFromDNAttributeType api obj = [] \<or> StringFromASN1String api val = [] then None
              else Some (StringFromDNAttributeType api obj, StringFromASN1String api val))
         | _ \<Rightarrow> None))"

lemma ParseX509Name_loop_step:
  "ParseX509Name_loop api (e # es) items =
     (case entry_item api e of None \<Rightarrow> Map.empty
      | Some (a, v) \<Rightarrow> ParseX509Name_loop api es (if items a = None then items(a \<mapsto> v) else items))"
  by (cases e) (auto simp: entry_item_def Let_def split: option.splits)

lemma ParseX509Name_loop_spec:
  "ParseX509Name_loop api es items =
     (if None \<in> entry_item api ` set es then Map.empty
      else map_of (map (\<lambda>e. the (entry_item api e)) es) ++ items)"
proof (induction es arbitrary: items)
  case Nil
  show ?case by simp
next
  case (Cons e es)
  show ?case
  proof (cases "entry_item api e")
    case None
    then show ?thesis by (simp add: ParseX509Name_loop_step rev_image_eqI)
  next
    case (Some av)
    obtain a v where av: "av = (a, v)" by (cases av)
    have "map_of ps ++ (if items a = None then items(a \<mapsto> v) else items)
        = map_of ((a, v) # ps) ++ items" for ps
      by (auto simp: fun_eq_iff map_add_def split: option.splits)
    then show ?thesis
      using Some av by (auto simp: ParseX509Name_loop_step Cons.IH fun_upd_def)
  qed
qed

lemma ParseX509Name_eq:
  "ParseX509Name api name =
     (if None \<in> entry_item api ` set (X509_NAME_entries api name) then Map.empty
      else map_of (map (\<lambda>e. the (entry_item api e)) (X509_NAME_entries api name)))"
  by (simp add: ParseX509Name_def ParseX509Name_loop_spec)

subsection \<open>What extraction stores\<close>

text \<open>The strings of the alternative names of one kind that \<open>ExtractCertificateInfo\<close> keeps.\<close>

definition alt_strings ::
    "('h, 'z) x509_api_scheme \<Rightarrow> general_name_type \<Rightarrow> (general_name_type \<times> 'h) list \<Rightarrow> string list" where
  "alt_strings api t ns =
     filter (\<lambda>s. s \<noteq> []) (map (\<lambda>n. StringFromASN1String api (snd n)) (filter (\<lambda>n. fst n = t) ns))"

lemma fold_ExtractAltName:
  "fold (ExtractAltName api) ns c =
     c\<lparr>email_addrs := email_addrs c @ alt_strings api GEN_EMAIL ns,
       dns_names := dns_names c @ alt_strings api GEN_DNS ns\<rparr>"
proof (induction ns arbitrary: c)
  case Nil
  show ?case by (simp add: alt_strings_def)
next
  case (Cons n ns)
  then show ?case
    by (cases "fst n") (simp_all add: ExtractAltName_def alt_strings_def Let_def)
qed

definition parse_time :: "('h, 'z) x509_api_scheme \<Rightarrow> asn1_time \<Rightarrow> int" where
  "parse_time api = ParseASN1Time (x_strptime api) (x_timegm api)"

text \<open>A certificate made from the two byte arrays.\<close>

definition cert_of :: "('h, 'z) x509_api_scheme \<Rightarrow> bytearray \<Rightarrow> bytearray \<Rightarrow> x509cert" where
  "cert_of api cert priv =
     ExtractCertificateInfo api (X509Certificate_new\<lparr>cert_der := cert, priv_der := priv\<rparr>)"

lemma cert_of_fields:
  "cert_of api cert priv =
     (case d2i_X509 api (content cert) of
        None \<Rightarrow> X509Certificate_new\<lparr>cert_der := cert, priv_der := priv\<rparr>
      | Some x \<Rightarrow> \<lparr>subject_items = ParseX509Name api (X509_get_subject_name api x),
          issuer_items = ParseX509Name api (X509_get_issuer_name api x),
          email_addrs = alt_strings api GEN_EMAIL (X509_get_alt_names api x),
          dns_names = alt_strings api GEN_DNS (X509_get_alt_names api x),
          cert_der = cert, priv_der = priv,
          not_before = map_option (parse_time api) (X509_get_notBefore api x),
          not_after = map_option (parse_time api) (X509_get_notAfter api x)\<rparr>)"
  by (auto simp: cert_of_def ExtractCertificateInfo_def X509Certificate_new_def Let_def
      fold_ExtractAltName parse_time_def split: option.splits)

lemma cert_of_der [simp]: "cert_der (cert_of api c p) = c" "priv_der (cert_of api c p) = p"
  by (simp_all add: cert_of_fields split: option.split)

lemma AsOpenSSLX509_cert_of: "AsOpenSSLX509 api (cert_of api c p) = d2i_X509 api (content c)"
  by (simp add: AsOpenSSLX509_def)

lemma FromRawDERData_wf:
  "ba_wf cert \<Longrightarrow> ba_wf pkey \<Longrightarrow> FromRawDERData api cert pkey = Inr (cert_of api cert pkey)"
  by (simp add: FromRawDERData_def ByteArray_assign_wf cert_of_def)

lemma X509Certificate_copy_eq:
  "X509Certificate_copy api c = FromRawDERData api (cert_der c) (priv_der c)"
  by (simp add: X509Certificate_copy_def FromRawDERData_def)

lemma X509Certificate_assign_eq: "X509Certificate_assign api this c = X509Certificate_copy api c"
  by (cases "X509Certificate_copy api c") (simp_all add: X509Certificate_assign_def)

lemma der_array_eq:
  "int (length der) \<le> INT_MAX \<Longrightarrow>
   der_array der = Inr \<lparr>ba_buf = Some der, ba_len = int (length der), ba_cap = int (length der)\<rparr>"
  by (simp add: der_array_def Data_write_def ByteArray_len_def c_memcpy_def)

definition der_ba :: "cell list \<Rightarrow> bytearray" where
  "der_ba der = \<lparr>ba_buf = Some der, ba_len = int (length der), ba_cap = int (length der)\<rparr>"

lemma der_ba_simps [simp]:
  "content (der_ba der) = der" "\<not> IsNull (der_ba der)" "ba_buf (der_ba der) = Some der"
  "int (length der) \<le> INT_MAX \<Longrightarrow> ba_wf (der_ba der)"
  by (simp_all add: der_ba_def ba_defs)

subsection \<open>Documented behaviour of OpenSSL's codecs\<close>

text \<open>
  \<open>certs\<close> and \<open>keys\<close> are the handles that are certificates and private keys. Encodings have lengths
  that are C ints, decoding inverts encoding, and there is no certificate in zero bytes.
\<close>

definition x509_codec :: "'h x509_api \<Rightarrow> 'h set \<Rightarrow> 'h set \<Rightarrow> bool" where
  "x509_codec api certs keys \<longleftrightarrow>
     d2i_X509 api [] = None
     \<and> (\<forall>der x. d2i_X509 api der = Some x \<longrightarrow> x \<in> certs)
     \<and> (\<forall>x \<in> certs. int (length (i2d_X509 api x)) \<le> INT_MAX)
     \<and> (\<forall>x \<in> certs. d2i_X509 api (i2d_X509 api x) = Some x)
     \<and> (\<forall>k \<in> keys. int (length (i2d_PrivateKey api k)) \<le> INT_MAX)
     \<and> (\<forall>k \<in> keys. d2i_AutoPrivateKey api (i2d_PrivateKey api k) = Some k)
     \<and> (\<forall>bits e. RSA_generate_key api bits e \<in> keys)
     \<and> (\<forall>p pw ret pko xo stack. PKCS12_parse api p pw = (ret, pko, xo, Some stack) \<longrightarrow>
           set stack \<subseteq> certs)
     \<and> (\<forall>p pw ret pko c so. PKCS12_parse api p pw = (ret, pko, Some c, so) \<longrightarrow> c \<in> certs)
     \<and> (\<forall>p pw ret k xo so. PKCS12_parse api p pw = (ret, Some k, xo, so) \<longrightarrow> k \<in> keys)"

lemma d2i_X509_empty:
  "x509_codec api certs keys \<Longrightarrow> d2i_X509 api [] = None"
  unfolding x509_codec_def by (elim conjE) metis

lemma d2i_X509_cert:
  "x509_codec api certs keys \<Longrightarrow> d2i_X509 api der = Some x \<Longrightarrow> x \<in> certs"
  unfolding x509_codec_def by (elim conjE) metis

lemma i2d_X509_int:
  "x509_codec api certs keys \<Longrightarrow> x \<in> certs \<Longrightarrow> int (length (i2d_X509 api x)) \<le> INT_MAX"
  unfolding x509_codec_def by (elim conjE) metis

lemma d2i_i2d_X509:
  "x509_codec api certs keys \<Longrightarrow> x \<in> certs \<Longrightarrow> d2i_X509 api (i2d_X509 api x) = Some x"
  unfolding x509_codec_def by (elim conjE) metis

lemma i2d_key_int:
  "x509_codec api certs keys \<Longrightarrow> k \<in> keys \<Longrightarrow> int (length (i2d_PrivateKey api k)) \<le> INT_MAX"
  unfolding x509_codec_def by (elim conjE) metis

lemma d2i_i2d_key:
  "x509_codec api certs keys \<Longrightarrow> k \<in> keys \<Longrightarrow> d2i_AutoPrivateKey api (i2d_PrivateKey api k) = Some k"
  unfolding x509_codec_def by (elim conjE) metis

lemma generated_key:
  "x509_codec api certs keys \<Longrightarrow> RSA_generate_key api bits e \<in> keys"
  unfolding x509_codec_def by (elim conjE) metis

lemma parsed_stack:
  "x509_codec api certs keys \<Longrightarrow> PKCS12_parse api p pw = (ret, pko, xo, Some stack) \<Longrightarrow> set stack \<subseteq> certs"
  unfolding x509_codec_def by (elim conjE) metis

lemma parsed_cert:
  "x509_codec api certs keys \<Longrightarrow> PKCS12_parse api p pw = (ret, pko, Some c, so) \<Longrightarrow> c \<in> certs"
  unfolding x509_codec_def by (elim conjE) metis

lemma parsed_key:
  "x509_codec api certs keys \<Longrightarrow> PKCS12_parse api p pw = (ret, Some k, xo, so) \<Longrightarrow> k \<in> keys"
  unfolding x509_codec_def by (elim conjE) metis

text \<open>The certificates a program can have, through the public interface.\<close>

inductive obtainable_cert :: "'h x509_api \<Rightarrow> x509cert \<Rightarrow> bool" for api where
  new: "obtainable_cert api X509Certificate_new"
| from_der: "\<lbrakk>ba_wf cert; ba_wf pkey; FromRawDERData api cert pkey = Inr c\<rbrakk> \<Longrightarrow> obtainable_cert api c"
| copy: "\<lbrakk>obtainable_cert api c; X509Certificate_copy api c = Inr c'\<rbrakk> \<Longrightarrow> obtainable_cert api c'"
| assign: "\<lbrakk>obtainable_cert api c; X509Certificate_assign api this c = Inr c'\<rbrakk> \<Longrightarrow> obtainable_cert api c'"
| generate: "\<lbrakk>k = RSA_generate_key api 2048 RSA_F4;
    int (length (i2d_X509 api (X509_sign api (self_signed_build api name email k) k EVP_sha1))) \<le> INT_MAX;
    GenerateSelfSignedCertificate api name email = Inr c\<rbrakk> \<Longrightarrow> obtainable_cert api c"
| from_pkcs12: "\<lbrakk>FromPKCS12 api p password = Inr cs; c \<in> set cs\<rbrakk> \<Longrightarrow> obtainable_cert api c"

definition cert_consistent :: "'h x509_api \<Rightarrow> x509cert \<Rightarrow> bool" where
  "cert_consistent api c \<longleftrightarrow> ba_wf (cert_der c) \<and> ba_wf (priv_der c)
     \<and> c = cert_of api (cert_der c) (priv_der c)"

lemma cert_consistent_of [simp]: "cert_consistent api (cert_of api c p) \<longleftrightarrow> ba_wf c \<and> ba_wf p"
  by (simp add: cert_consistent_def)

lemma copy_consistent: "cert_consistent api c \<Longrightarrow> X509Certificate_copy api c = Inr c"
  by (simp add: cert_consistent_def X509Certificate_copy_eq FromRawDERData_wf)

lemma FromRawDERData_consistent:
  "\<lbrakk>ba_wf cert; ba_wf pkey; FromRawDERData api cert pkey = Inr c\<rbrakk> \<Longrightarrow> cert_consistent api c"
  by (auto simp: FromRawDERData_wf)

lemma new_consistent:
  assumes "x509_codec api certs keys"
  shows "cert_consistent api X509Certificate_new"
proof -
  have "cert_of api ByteArray_null ByteArray_null = X509Certificate_new"
    by (simp add: cert_of_fields d2i_X509_empty [OF assms] X509Certificate_new_def)
  then show ?thesis by (metis ba_wf_null cert_consistent_of)
qed

lemma der_array_x509:
  "x509_codec api certs keys \<Longrightarrow> x \<in> certs \<Longrightarrow> der_array (i2d_X509 api x) = Inr (der_ba (i2d_X509 api x))"
  unfolding der_ba_def by (rule der_array_eq [OF i2d_X509_int])

lemma der_array_key:
  "x509_codec api certs keys \<Longrightarrow> k \<in> keys \<Longrightarrow> der_array (i2d_PrivateKey api k) = Inr (der_ba (i2d_PrivateKey api k))"
  unfolding der_ba_def by (rule der_array_eq [OF i2d_key_int])

lemma wf_der_x509:
  "x509_codec api certs keys \<Longrightarrow> x \<in> certs \<Longrightarrow> ba_wf (der_ba (i2d_X509 api x))"
  by (rule der_ba_simps(4) [OF i2d_X509_int])

lemma wf_der_key:
  "x509_codec api certs keys \<Longrightarrow> k \<in> keys \<Longrightarrow> ba_wf (der_ba (i2d_PrivateKey api k))"
  by (rule der_ba_simps(4) [OF i2d_key_int])

lemma FromRawDERData_cert:
  "x509_codec api certs keys \<Longrightarrow> x \<in> certs \<Longrightarrow> ba_wf p \<Longrightarrow>
   bindR (der_array (i2d_X509 api x)) (\<lambda>d. bindR (FromRawDERData api d p) f)
     = f (cert_of api (der_ba (i2d_X509 api x)) p)"
  by (simp add: der_array_x509 wf_der_x509 FromRawDERData_wf)

lemma FromPKCS12_loop_eq:
  "x509_codec api certs keys \<Longrightarrow> set xs \<subseteq> certs \<Longrightarrow> FromPKCS12_loop api xs out =
     Inr (out @ map (\<lambda>x. cert_of api (der_ba (i2d_X509 api x)) ByteArray_null) xs)"
  by (induction xs arbitrary: out) (auto simp: FromRawDERData_cert)

lemma FromPKCS12_leaf_cert:
  assumes "x509_codec api certs keys" "x \<in> certs" "k \<in> keys" "X509_check_private_key api x k > 0"
  shows "FromPKCS12_leaf api 1 (Some k) (Some x) stack =
    Inr [cert_of api (der_ba (i2d_X509 api x)) (der_ba (i2d_PrivateKey api k))]"
  using assms wf_der_key [OF assms(1,3)]
  by (simp add: FromPKCS12_leaf_def FromRawDERData_cert der_array_key)

lemma FromPKCS12_leaf_members:
  assumes "x509_codec api certs keys"
    and "FromPKCS12_leaf api ret pkey x509 stack = Inr cs" "c \<in> set cs"
    and "\<And>x. x509 = Some x \<Longrightarrow> x \<in> certs" "\<And>k. pkey = Some k \<Longrightarrow> k \<in> keys"
  shows "cert_consistent api c"
proof -
  obtain x k where "x509 = Some x" "pkey = Some k" "X509_check_private_key api x k > 0" "ret = 1"
    using assms(2,3) by (auto simp: FromPKCS12_leaf_def assertR_def split: if_splits)
  then show ?thesis
    using assms FromPKCS12_leaf_cert [OF assms(1), of x k stack]
      wf_der_x509 [OF assms(1), of x] wf_der_key [OF assms(1), of k]
    by auto
qed

lemma FromPKCS12_members:
  assumes "x509_codec api certs keys" "FromPKCS12 api p password = Inr cs" "c \<in> set cs"
  shows "cert_consistent api c"
proof -
  obtain pkcs where pkcs: "d2i_PKCS12 api (content p) = Some pkcs"
    using assms by (auto simp: FromPKCS12_def split: if_splits option.splits)
  obtain pw ret pkey x509 stack where parse: "PKCS12_parse api pkcs pw = (ret, pkey, x509, stack)"
    and run: "bindR (FromPKCS12_leaf api ret pkey x509 stack) (\<lambda>out_certs.
                   case stack of
                     None \<Rightarrow> Inr out_certs
                   | Some stack \<Rightarrow>
                       if (length out_certs = 0 \<and> x509 = None) \<or> (length out_certs = 1 \<and> x509 \<noteq> None)
                       then FromPKCS12_loop api (rev stack) out_certs
                       else Inr out_certs) = Inr cs"
    using assms(2,3) pkcs
    by (auto simp: FromPKCS12_def Let_def split: if_splits prod.splits)
  obtain out where leaf: "FromPKCS12_leaf api ret pkey x509 stack = Inr out"
    using run by (auto simp: bindR_eq_Inr_iff)
  have out: "cert_consistent api d" if "d \<in> set out" for d
    using FromPKCS12_leaf_members [OF assms(1) leaf that] parse parsed_cert [OF assms(1)]
      parsed_key [OF assms(1)] by blast
  show ?thesis
  proof (cases stack)
    case None
    then show ?thesis using run leaf out assms(3) by simp
  next
    case (Some st)
    then have st: "set (rev st) \<subseteq> certs" using parsed_stack [OF assms(1)] parse by simp
    have "c \<in> set out \<or> (\<exists>x \<in> set st. c = cert_of api (der_ba (i2d_X509 api x)) ByteArray_null)"
      using run leaf assms(3) Some FromPKCS12_loop_eq [OF assms(1) st, of out] by (auto split: if_splits)
    then show ?thesis using out st wf_der_x509 [OF assms(1)] by (auto simp: subset_iff)
  qed
qed

lemma Generate_eq:
  assumes "x509_codec api certs keys"
    and "x = X509_sign api (self_signed_build api name email (RSA_generate_key api 2048 RSA_F4))
      (RSA_generate_key api 2048 RSA_F4) EVP_sha1" "int (length (i2d_X509 api x)) \<le> INT_MAX"
  shows "GenerateSelfSignedCertificate api name email =
    Inr (cert_of api (der_ba (i2d_X509 api x)) (der_ba (i2d_PrivateKey api (RSA_generate_key api 2048 RSA_F4))))"
  using der_array_eq [OF assms(3)] der_ba_simps(4) [OF assms(3)] generated_key [OF assms(1), of 2048 RSA_F4]
    der_array_key [OF assms(1)] wf_der_key [OF assms(1)]
  by (simp add: GenerateSelfSignedCertificate_def Let_def FromRawDERData_wf
      flip: der_ba_def assms(2))

lemma obtainable_consistent:
  assumes "x509_codec api certs keys"
  shows "obtainable_cert api c \<Longrightarrow> cert_consistent api c"
proof (induction rule: obtainable_cert.induct)
  case (generate k name email c)
  then show ?case
    using Generate_eq [OF assms refl, of name email] der_ba_simps(4) [OF generate(2)]
      wf_der_key [OF assms generated_key [OF assms]]
    by auto
qed (auto simp: new_consistent [OF assms] copy_consistent X509Certificate_assign_eq
       intro: FromRawDERData_consistent FromPKCS12_members [OF assms])

text \<open>PKCS #12: what was put together with a password comes apart with it, the certificates other
  than the leaf in the opposite order; a container without a key holds the leaf as one of them.\<close>

definition pkcs12_codec :: "'h x509_api \<Rightarrow> 'h set \<Rightarrow> 'h set \<Rightarrow> bool" where
  "pkcs12_codec api certs keys \<longleftrightarrow>
     x509_codec api certs keys
     \<and> (\<forall>po name ko x stk p. PKCS12_create api po name ko x stk = Some p \<longrightarrow>
           d2i_PKCS12 api (i2d_PKCS12 api p) = Some p \<and> int (length (i2d_PKCS12 api p)) \<le> INT_MAX)
     \<and> (\<forall>pw name k x cs p.
           PKCS12_create api (if pw = [] then None else Some pw) name (Some k) x (map Some cs) = Some p
           \<and> X509_check_private_key api x k > 0 \<and> (\<forall>c \<in> set cs. X509_check_private_key api c k \<le> 0) \<longrightarrow>
           PKCS12_parse api p (Some pw) = (1, Some k, Some x, if cs = [] then None else Some (rev cs)))
     \<and> (\<forall>pw name x cs p.
           PKCS12_create api (if pw = [] then None else Some pw) name None x (map Some cs) = Some p \<longrightarrow>
           PKCS12_parse api p (Some pw) = (1, None, None, Some (rev (x # cs))))"

lemma pkcs12_x509: "pkcs12_codec api certs keys \<Longrightarrow> x509_codec api certs keys"
  unfolding pkcs12_codec_def by (elim conjE)

lemma d2i_i2d_PKCS12:
  "pkcs12_codec api certs keys \<Longrightarrow> PKCS12_create api po name ko x stk = Some p \<Longrightarrow>
   d2i_PKCS12 api (i2d_PKCS12 api p) = Some p"
  unfolding pkcs12_codec_def by (elim conjE) metis

lemma parse_keyed:
  "\<lbrakk>pkcs12_codec api certs keys;
    PKCS12_create api (if pw = [] then None else Some pw) name (Some k) x (map Some cs) = Some p;
    X509_check_private_key api x k > 0; \<forall>c \<in> set cs. X509_check_private_key api c k \<le> 0\<rbrakk> \<Longrightarrow>
   PKCS12_parse api p (Some pw) = (1, Some k, Some x, if cs = [] then None else Some (rev cs))"
  unfolding pkcs12_codec_def by (elim conjE) metis

lemma parse_keyless:
  "\<lbrakk>pkcs12_codec api certs keys;
    PKCS12_create api (if pw = [] then None else Some pw) name None x (map Some cs) = Some p\<rbrakk> \<Longrightarrow>
   PKCS12_parse api p (Some pw) = (1, None, None, Some (rev (x # cs)))"
  unfolding pkcs12_codec_def by (elim conjE) metis

text \<open>A certificate made of OpenSSL's encoding.\<close>

definition encoded_cert :: "('h, 'z) x509_api_scheme \<Rightarrow> 'h \<Rightarrow> 'h option \<Rightarrow> x509cert" where
  "encoded_cert api x ko = cert_of api (der_ba (i2d_X509 api x))
     (case ko of None \<Rightarrow> ByteArray_null | Some k \<Rightarrow> der_ba (i2d_PrivateKey api k))"

lemma extra_certs_eq:
  "map (AsOpenSSLX509 api) rest = map Some cs \<Longrightarrow> (\<forall>c \<in> set rest. HasCertificate c) \<Longrightarrow>
   extra_certs api rest = map Some cs"
  by (simp add: extra_certs_def)

definition leaf_key :: "('h, 'z) x509_api_scheme \<Rightarrow> x509cert \<Rightarrow> 'h option" where
  "leaf_key api leaf =
     (if HasPrivateKey leaf then d2i_AutoPrivateKey api (content (priv_der leaf)) else None)"

lemma Export_eq:
  assumes "HasCertificate leaf" "AsOpenSSLX509 api leaf = Some x" "leaf_key api leaf = ko"
    and "\<forall>k. ko = Some k \<longrightarrow> X509_check_private_key api x k > 0" "extra_certs api rest = cs"
    and "PKCS12_create api (if c_str password = [] \<and> password = [] then None else Some (c_str password))
           ''Mumble Identity'' ko x cs = Some p"
  shows "ExportCertificateChainAsPKCS12 api (leaf # rest) password = Inr (der_ba (i2d_PKCS12 api p))"
  using assms ByteArray_buf_default [of "int (length (i2d_PKCS12 api p))" "i2d_PKCS12 api p"]
  by (auto simp: ExportCertificateChainAsPKCS12_def leaf_key_def HasPrivateKey_def IsNull_def
      Let_def c_str_def der_ba_def split: option.splits if_splits)

lemma c_str_no_NUL: "CHR 0x00 \<notin> set s \<Longrightarrow> c_str s = s"
  by (auto simp: c_str_def takeWhile_eq_all_conv)

lemma FromPKCS12_parsed:
  assumes "pkcs12_codec api certs keys" and "PKCS12_create api po name ko x cs = Some p"
    and "PKCS12_parse api p (Some (c_str password)) = (1, pkey, xo, stack)"
  shows "FromPKCS12 api (der_ba (i2d_PKCS12 api p)) password =
    bindR (FromPKCS12_leaf api 1 pkey xo stack) (\<lambda>out_certs.
                   case stack of
                     None \<Rightarrow> Inr out_certs
                   | Some stack \<Rightarrow>
                       if (length out_certs = 0 \<and> xo = None) \<or> (length out_certs = 1 \<and> xo \<noteq> None)
                       then FromPKCS12_loop api (rev stack) out_certs
                       else Inr out_certs)"
  using assms d2i_i2d_PKCS12 [OF assms(1,2)] by (simp add: FromPKCS12_def)

lemma round_trip_keyed:
  assumes "pkcs12_codec api certs keys" "x \<in> certs" "set cs \<subseteq> certs" "k \<in> keys" "X509_check_private_key api x k > 0"
    and "\<forall>c \<in> set cs. X509_check_private_key api c k \<le> 0" "c_str password = password"
    and "PKCS12_create api (if password = [] then None else Some password) name (Some k) x
           (map Some cs) = Some p"
  shows "FromPKCS12 api (der_ba (i2d_PKCS12 api p)) password =
    Inr (encoded_cert api x (Some k) # map (\<lambda>c. encoded_cert api c None) cs)"
proof -
  have codec: "x509_codec api certs keys" by (rule pkcs12_x509 [OF assms(1)])
  have parse: "PKCS12_parse api p (Some (c_str password)) =
      (1, Some k, Some x, if cs = [] then None else Some (rev cs))"
    using parse_keyed [OF assms(1,8,5,6)] assms(7) by simp
  show ?thesis
    using assms(2-5) FromPKCS12_leaf_cert [OF codec assms(2,4,5)]
    by (cases cs) (simp_all add: FromPKCS12_parsed [OF assms(1,8) parse]
        FromPKCS12_loop_eq [OF codec] FromRawDERData_cert [OF codec] encoded_cert_def)
qed

lemma round_trip_keyless:
  assumes "pkcs12_codec api certs keys" "x \<in> certs" "set cs \<subseteq> certs" "c_str password = password"
    and "PKCS12_create api (if password = [] then None else Some password) name None x
           (map Some cs) = Some p"
  shows "FromPKCS12 api (der_ba (i2d_PKCS12 api p)) password =
    Inr (encoded_cert api x None # map (\<lambda>c. encoded_cert api c None) cs)"
proof -
  have codec: "x509_codec api certs keys" by (rule pkcs12_x509 [OF assms(1)])
  have parse: "PKCS12_parse api p (Some (c_str password)) = (1, None, None, Some (rev (x # cs)))"
    using parse_keyless [OF assms(1,5)] assms(4) by simp
  show ?thesis
    using assms(2,3)
    by (simp add: FromPKCS12_parsed [OF assms(1,5) parse] FromPKCS12_leaf_def
        FromPKCS12_loop_eq [OF codec] FromRawDERData_cert [OF codec] encoded_cert_def)
qed


subsection \<open>A small instance of OpenSSL\<close>

text \<open>
  One key, the certificate signed with it, an unrelated certificate and one PKCS #12 container. It
  shows that the documented behaviour the properties assume can hold.
\<close>

datatype sample_h = SCert | SCA | SRoot | SKey | SName | SEntry | SObj | SStr | SP12 | SExt

definition sample_time :: asn1_time where
  "sample_time = generalized_time 2013 1 1 0 0 0"

definition sample_api :: "sample_h x509_api" where
  "sample_api =
     \<lparr>d2i_X509 = (\<lambda>b. if b = [Some CHR ''C''] then Some SCert
                      else if b = [Some CHR ''A''] then Some SCA else None),
      i2d_X509 = (\<lambda>x. [Some (if x = SCert then CHR ''C'' else CHR ''A'')]), i2d_X509_fails = (\<lambda>x. x = SName),
      X509_get_subject_name = (\<lambda>_. SName), X509_get_issuer_name = (\<lambda>_. SName),
      X509_get_notBefore = (\<lambda>_. Some sample_time), X509_get_notAfter = (\<lambda>_. Some sample_time),
      X509_get_alt_names = (\<lambda>x. if x = SCert then [(GEN_DNS, SStr)] else []),
      X509_NAME_entries = (\<lambda>_. [Some SEntry, Some SEntry]),
      X509_NAME_ENTRY_get_object = (\<lambda>_. Some SObj),
      X509_NAME_ENTRY_get_data = (\<lambda>_. Some SStr),
      OBJ_obj2nid = (\<lambda>_. NID_commonName),
      ASN1_STRING_to_UTF8 = (\<lambda>_. Some ''Mumble User''),
      X509_verify = (\<lambda>_ _. 1), X509_get_pubkey = (\<lambda>_. Some SKey),
      X509_check_private_key = (\<lambda>x k. if x = SCert then 1 else 0),
      d2i_AutoPrivateKey = (\<lambda>b. if b = [Some CHR ''K''] then Some SKey else None),
      i2d_PrivateKey = (\<lambda>_. [Some CHR ''K'']),
      PKCS12_create = (\<lambda>pw name ko x cs.
        if pw = None \<and> ko = Some SKey \<and> x = SCert \<and> cs = [Some SCA] then Some SP12 else None),
      i2d_PKCS12 = (\<lambda>_. [Some CHR ''P'']),
      d2i_PKCS12 = (\<lambda>b. if b = [Some CHR ''P''] then Some SP12 else None),
      PKCS12_parse = (\<lambda>p pw. if p = SP12 then (1, Some SKey, Some SCert, Some [SCA])
                             else if p = SKey then (1, Some SKey, None, None) else (0, None, None, None)),
      EVP_get_digestbyname = (\<lambda>_. None), EVP_MD_size = (\<lambda>_. 20), EVP_MD_CTX_create = None,
      EVP_digest = (\<lambda>_ _. []),
      RSA_generate_key = (\<lambda>_ _. SKey),
      X509V3_EXT_conf_nid = (\<lambda>_ _ _. Some SExt),
      X509_sign = (\<lambda>_ _ _. SCert),
      x_strptime = strptime_win, x_timegm = timegm_posix\<rparr>"

lemma sample_api_simps [simp]:
  "d2i_X509 sample_api [] = None"
  "d2i_X509 sample_api [Some CHR ''C''] = Some SCert"
  "d2i_X509 sample_api [Some CHR ''A''] = Some SCA"
  "i2d_X509_fails sample_api x \<longleftrightarrow> x = SName"
  "i2d_X509 sample_api SCert = [Some CHR ''C'']"
  "i2d_X509 sample_api SCA = [Some CHR ''A'']"
  "X509_get_alt_names sample_api SCert = [(GEN_DNS, SStr)]"
  "ASN1_STRING_to_UTF8 sample_api s = Some ''Mumble User''"
  "d2i_AutoPrivateKey sample_api [Some CHR ''K''] = Some SKey"
  "i2d_PrivateKey sample_api k = [Some CHR ''K'']"
  "X509_check_private_key sample_api SCert k = 1"
  "X509_check_private_key sample_api SCA k = 0"
  "RSA_generate_key sample_api n e = SKey"
  "X509_sign sample_api b k md = SCert"
  "X509_NAME_entries sample_api h = [Some SEntry, Some SEntry]"
  "X509_NAME_ENTRY_get_object sample_api h = Some SObj"
  "X509_NAME_ENTRY_get_data sample_api h = Some SStr"
  "OBJ_obj2nid sample_api h = NID_commonName"
  "PKCS12_create sample_api None nm (Some SKey) SCert [Some SCA] = Some SP12"
  by (simp_all add: sample_api_def)

lemma sample_codec: "pkcs12_codec sample_api {SCert, SCA} {SKey}"
  by (auto simp: pkcs12_codec_def x509_codec_def sample_api_def split: if_splits)

lemma sample_x509_codec: "x509_codec sample_api {SCert, SCA} {SKey}"
  by (rule pkcs12_x509 [OF sample_codec])

subsection \<open>Properties\<close>

text \<open>C16: every certificate a program can obtain holds exactly what its own DER bytes say: the names,
  the alternative names in their order and the times are those of the certificate the DER decodes
  to, nothing is left over from another certificate, and copying it gives it back.\<close>

theorem obtainable_cert_faithful:
  assumes "x509_codec api certs keys" and "obtainable_cert api c"
  shows "X509Certificate_copy api c = Inr c \<and>
    (case AsOpenSSLX509 api c of
       None \<Rightarrow> subject_items c = Map.empty \<and> issuer_items c = Map.empty \<and> DNSNames c = []
         \<and> email_addrs c = [] \<and> not_before c = None \<and> not_after c = None
     | Some x \<Rightarrow> subject_items c = ParseX509Name api (X509_get_subject_name api x)
         \<and> issuer_items c = ParseX509Name api (X509_get_issuer_name api x)
         \<and> DNSNames c = alt_strings api GEN_DNS (X509_get_alt_names api x)
         \<and> email_addrs c = alt_strings api GEN_EMAIL (X509_get_alt_names api x)
         \<and> not_before c = map_option (parse_time api) (X509_get_notBefore api x)
         \<and> not_after c = map_option (parse_time api) (X509_get_notAfter api x))"
proof -
  have cons: "cert_consistent api c" using obtainable_consistent [OF assms] .
  then obtain der priv where "c = cert_of api der priv" by (auto simp: cert_consistent_def)
  then show ?thesis
    using copy_consistent [OF cons]
    by (auto simp: AsOpenSSLX509_def cert_of_fields DNSNames_def X509Certificate_new_def
        split: option.split)
qed

theorem obtainable_cert_faithful_witness:
  "DNSNames (encoded_cert sample_api SCert None) = [''Mumble User'']"
proof -
  have "obtainable_cert sample_api (encoded_cert sample_api SCert None)"
    by (rule obtainable_cert.from_der [of "der_ba [Some CHR ''C'']" ByteArray_null])
       (simp_all add: FromRawDERData_wf encoded_cert_def)
  from obtainable_cert_faithful [OF sample_x509_codec this] show ?thesis
    by (simp add: encoded_cert_def AsOpenSSLX509_cert_of alt_strings_def StringFromASN1String_def)
qed

text \<open>C33: \<open>ParseX509Name\<close> is all or nothing: when any entry lacks its object or data, has an
  attribute type outside the nine of RFC 4514 or an empty or unconvertible value, the result is the
  empty map; otherwise every attribute has the value of its first entry.\<close>

theorem ParseX509Name_first_wins:
  "ParseX509Name api name = (if None \<in> entry_item api ` set (X509_NAME_entries api name) then Map.empty
     else (\<lambda>a. map_option snd (find (\<lambda>p. fst p = a)
       (map (\<lambda>e. the (entry_item api e)) (X509_NAME_entries api name)))))"
proof -
  have "map_of ps = (\<lambda>a. map_option snd (find (\<lambda>p. fst p = a) ps))"
    for ps :: "(string \<times> string) list"
    by (induction ps) (auto simp: fun_eq_iff)
  then show ?thesis by (simp only: ParseX509Name_eq)
qed

text \<open>C34: for every certificate a program can obtain, \<open>IsValidAtTime\<close> holds exactly between its two
  times, both included, when its DER decodes and has them; when the DER does not decode it reads a
  member that was never initialised.\<close>

theorem IsValidAtTime_spec:
  assumes "x509_codec api certs keys" and "obtainable_cert api c"
  shows "case AsOpenSSLX509 api c of
      None \<Rightarrow> IsValidAtTime c t = Inl Uninit
    | Some x \<Rightarrow> (case (X509_get_notBefore api x, X509_get_notAfter api x) of
          (Some nb, Some na) \<Rightarrow>
             IsValidAtTime c t = Inr (parse_time api nb \<le> t \<and> t \<le> parse_time api na)
        | (None, _) \<Rightarrow> IsValidAtTime c t = Inl Uninit
        | (Some nb, None) \<Rightarrow>
             IsValidAtTime c t = (if parse_time api nb \<le> t then Inl Uninit else Inr False))"
proof -
  obtain der priv where "c = cert_of api der priv"
    using obtainable_consistent [OF assms] by (auto simp: cert_consistent_def)
  then show ?thesis
    by (auto simp: AsOpenSSLX509_def cert_of_fields X509Certificate_new_def IsValidAtTime_def
        NotBeforeTime_def NotAfterTime_def split: option.split)
qed

theorem IsValidAtTime_spec_witness:
  "IsValidAtTime X509Certificate_new 0 = Inl Uninit"
  using IsValidAtTime_spec [OF sample_x509_codec obtainable_cert.new, of 0]
  by (simp add: AsOpenSSLX509_def X509Certificate_new_def)

text \<open>A name that spells attribute and value pairs, the way OpenSSL's accessors report it.\<close>

definition name_spells :: "('h, 'z) x509_api_scheme \<Rightarrow> 'h \<Rightarrow> (string \<times> string) list \<Rightarrow> bool" where
  "name_spells api h dn \<longleftrightarrow>
     list_all2 (\<lambda>e (a, v). \<exists>ne obj val. e = Some ne \<and> X509_NAME_ENTRY_get_object api ne = Some obj
        \<and> X509_NAME_ENTRY_get_data api ne = Some val \<and> StringFromDNAttributeType_nid (OBJ_obj2nid api obj) = a
        \<and> ASN1_STRING_to_UTF8 api val = Some v) (X509_NAME_entries api h) dn"

lemma name_spells_entry:
  assumes "name_spells api h [(a, v)]" "a \<noteq> []" "v \<noteq> []"
  shows "ParseX509Name api h = [a \<mapsto> v]"
proof -
  obtain ne obj val where e: "X509_NAME_entries api h = [Some ne]"
    and ne: "X509_NAME_ENTRY_get_object api ne = Some obj" "X509_NAME_ENTRY_get_data api ne = Some val"
      "StringFromDNAttributeType_nid (OBJ_obj2nid api obj) = a" "ASN1_STRING_to_UTF8 api val = Some v"
    using assms(1) by (auto simp: name_spells_def list_all2_Cons2)
  have "OBJ_obj2nid api obj \<noteq> NID_undef" using ne(3) assms(2) by auto
  then have "entry_item api (Some ne) = Some (a, v)"
    using ne assms(2,3)
    by (simp add: entry_item_def StringFromDNAttributeType_def StringFromASN1String_def)
  then show ?thesis by (simp add: ParseX509Name_eq e)
qed

lemma add_ext_keeps [simp]:
  "xb_version (snd (add_ext api b nid v)) = xb_version b"
  "xb_serial (snd (add_ext api b nid v)) = xb_serial b"
  "xb_not_before (snd (add_ext api b nid v)) = xb_not_before b"
  "xb_not_after (snd (add_ext api b nid v)) = xb_not_after b"
  "xb_pubkey (snd (add_ext api b nid v)) = xb_pubkey b"
  "xb_subject (snd (add_ext api b nid v)) = xb_subject b"
  "xb_issuer (snd (add_ext api b nid v)) = xb_issuer b"
  by (simp_all add: add_ext_def split: option.split)

lemma self_signed_build_fields:
  "xb_version (self_signed_build api name email k) = 2"
  "xb_serial (self_signed_build api name email k) = 1"
  "xb_not_before (self_signed_build api name email k) = 0"
  "xb_not_after (self_signed_build api name email k) = 20 * (365 * 86400)"
  "xb_pubkey (self_signed_build api name email k) = Some k"
  "xb_subject (self_signed_build api name email k)
     = [(''CN'', c_str (if name = [] then ''Mumble User'' else name))]"
  "xb_issuer (self_signed_build api name email k) = xb_subject (self_signed_build api name email k)"
  by (simp_all add: self_signed_build_def Let_def X509_new_def)

text \<open>\<open>GenerateSelfSignedCertificate\<close> returns a certificate and the private key it was signed
  with: the DER decodes to the signed certificate, the key bytes decode to the generated key, the
  subject and the issuer are the given name, Mumble User for an empty one, and what was signed is
  valid from now for twenty years of 365 days.\<close>

theorem GenerateSelfSigned_spec:
  assumes "x509_codec api certs keys" and "k = RSA_generate_key api 2048 RSA_F4"
    and "b = self_signed_build api name email k" and "X509_sign api b k EVP_sha1 \<in> certs"
    and "name_spells api (X509_get_subject_name api (X509_sign api b k EVP_sha1)) (xb_subject b)"
    and "name_spells api (X509_get_issuer_name api (X509_sign api b k EVP_sha1)) (xb_issuer b)"
    and "c_str name = name"
  shows "\<exists>c. GenerateSelfSignedCertificate api name email = Inr c
    \<and> AsOpenSSLX509 api c = Some (X509_sign api b k EVP_sha1)
    \<and> d2i_AutoPrivateKey api (content (priv_der c)) = Some k \<and> HasCertificate c \<and> HasPrivateKey c
    \<and> SubjectName c = (if name = [] then ''Mumble User'' else name) \<and> IssuerName c = SubjectName c
    \<and> xb_not_after b - xb_not_before b = 20 * (365 * 86400)"
proof -
  define x where "x = X509_sign api b k EVP_sha1"
  define cn where "cn = (if name = [] then ''Mumble User'' else name)"
  let ?c = "cert_of api (der_ba (i2d_X509 api x)) (der_ba (i2d_PrivateKey api k))"
  have "c_str ''Mumble User'' = ''Mumble User''" by (simp add: c_str_def)
  then have dn: "xb_subject b = [(''CN'', cn)]" "xb_issuer b = [(''CN'', cn)]" "cn \<noteq> []"
    using assms(7) by (auto simp: assms(3) self_signed_build_fields cn_def)
  have x: "d2i_X509 api (i2d_X509 api x) = Some x" "int (length (i2d_X509 api x)) \<le> INT_MAX"
    using d2i_i2d_X509 [OF assms(1,4)] i2d_X509_int [OF assms(1,4)]
    by (simp_all add: x_def)
  have items: "ParseX509Name api (X509_get_subject_name api x) = [''CN'' \<mapsto> cn]"
    "ParseX509Name api (X509_get_issuer_name api x) = [''CN'' \<mapsto> cn]"
    using name_spells_entry [of api _ "''CN''" cn] assms(5,6) dn by (simp_all add: x_def)
  have "GenerateSelfSignedCertificate api name email = Inr ?c"
    using Generate_eq [OF assms(1), of x name email] x(2) assms(2,3) by (simp add: x_def)
  moreover have "d2i_AutoPrivateKey api (content (priv_der ?c)) = Some k"
    using d2i_i2d_key [OF assms(1)] generated_key [OF assms(1)] assms(2) by simp
  moreover have "CommonName ?c = cn" "IssuerName ?c = cn"
    using x(1) items by (simp_all add: cert_of_fields CommonName_def IssuerName_def lookup_item_def)
  moreover have "xb_not_after b - xb_not_before b = 20 * (365 * 86400)"
    by (simp only: assms(3) self_signed_build_fields diff_zero)
  ultimately show ?thesis
    using x(1) dn(3)
    by (intro exI [of _ ?c])
       (auto simp: AsOpenSSLX509_cert_of HasCertificate_def HasPrivateKey_def SubjectName_def Let_def
         simp flip: x_def cn_def)
qed

theorem GenerateSelfSigned_spec_witness:
  "\<exists>c. GenerateSelfSignedCertificate (sample_api\<lparr>X509_NAME_entries := \<lambda>_. [Some SEntry]\<rparr>) [] ''a@b'' = Inr c
     \<and> SubjectName c = ''Mumble User''"
proof -
  let ?api = "sample_api\<lparr>X509_NAME_entries := \<lambda>_. [Some SEntry]\<rparr>"
  have codec: "x509_codec ?api {SCert, SCA} {SKey}"
    using sample_x509_codec by (simp add: x509_codec_def)
  have "name_spells ?api h [(''CN'', ''Mumble User'')]" for h
    by (simp add: name_spells_def)
  then have "name_spells ?api h (xb_subject (self_signed_build ?api [] ''a@b'' SKey))"
    "name_spells ?api h (xb_issuer (self_signed_build ?api [] ''a@b'' SKey))" for h
    by (simp_all add: self_signed_build_fields c_str_def)
  then show ?thesis
    using GenerateSelfSigned_spec [OF codec, of SKey _ "[]" "''a@b''"]
    by (simp add: c_str_def) blast
qed

text \<open>C17: what \<open>ExportCertificateChainAsPKCS12\<close> writes, \<open>FromPKCS12\<close> reads back with the same
  password: the chain in its order, the leaf with its private key when it had one that matches,
  the other certificates without theirs.\<close>

theorem PKCS12_round_trip:
  assumes "pkcs12_codec api certs keys" and "c_str password = password"
    and "HasCertificate leaf" and "AsOpenSSLX509 api leaf = Some x" and "leaf_key api leaf = ko"
    and "\<forall>c \<in> set rest. HasCertificate c" and "map (AsOpenSSLX509 api) rest = map Some cs"
    and "\<forall>k. ko = Some k \<longrightarrow> k \<in> keys \<and> X509_check_private_key api x k > 0
           \<and> (\<forall>c \<in> set cs. X509_check_private_key api c k \<le> 0)"
    and "PKCS12_create api (if password = [] then None else Some password) ''Mumble Identity'' ko x
           (map Some cs) = Some p"
  shows "\<exists>blob. ExportCertificateChainAsPKCS12 api (leaf # rest) password = Inr blob
    \<and> FromPKCS12 api blob password = Inr (encoded_cert api x ko # map (\<lambda>c. encoded_cert api c None) cs)"
proof -
  have codec: "x509_codec api certs keys" by (rule pkcs12_x509 [OF assms(1)])
  have certs: "x \<in> certs" "set cs \<subseteq> certs"
    using d2i_X509_cert [OF codec] assms(4,7)
    by (auto simp: AsOpenSSLX509_def list_eq_iff_nth_eq set_conv_nth)
  have "ExportCertificateChainAsPKCS12 api (leaf # rest) password = Inr (der_ba (i2d_PKCS12 api p))"
    by (rule Export_eq [OF assms(3,4,5)]) (use assms extra_certs_eq [OF assms(7,6)] in auto)
  moreover have "FromPKCS12 api (der_ba (i2d_PKCS12 api p)) password =
      Inr (encoded_cert api x ko # map (\<lambda>c. encoded_cert api c None) cs)"
  proof (cases ko)
    case None
    show ?thesis
      using round_trip_keyless [OF assms(1) certs assms(2)] assms(9) None by simp
  next
    case (Some k)
    show ?thesis
      using round_trip_keyed [OF assms(1) certs _ _ _ assms(2), of k] assms(8,9) Some
      by simp
  qed
  ultimately show ?thesis by blast
qed

theorem PKCS12_round_trip_witness:
  "\<exists>blob. ExportCertificateChainAsPKCS12 sample_api
       [encoded_cert sample_api SCert (Some SKey), encoded_cert sample_api SCA None] [] = Inr blob
     \<and> FromPKCS12 sample_api blob [] = Inr
         [encoded_cert sample_api SCert (Some SKey), encoded_cert sample_api SCA None]"
  using PKCS12_round_trip [OF sample_codec, of "[]" "encoded_cert sample_api SCert (Some SKey)" SCert
      "Some SKey" "[encoded_cert sample_api SCA None]" "[SCA]" SP12]
  by (simp add: encoded_cert_def AsOpenSSLX509_cert_of HasCertificate_def c_str_def leaf_key_def
      HasPrivateKey_def)

text \<open>C35: a container whose parse yields a key but no certificate for it, or nothing at all, stops
  the program with a failed assertion instead of giving the empty vector.\<close>

theorem FromPKCS12_asserts:
  assumes "\<not> IsNull ba" and "d2i_PKCS12 api (content ba) = Some p"
    and "PKCS12_parse api p (Some (c_str password)) = (1, pkey, x509, stack)"
    and "x509 = None \<and> (pkey \<noteq> None \<or> stack = None) \<or> x509 \<noteq> None \<and> pkey = None"
  shows "FromPKCS12 api ba password = Inl AssertFail"
  using assms by (auto simp: FromPKCS12_def FromPKCS12_leaf_def)

theorem FromPKCS12_asserts_witness:
  "FromPKCS12 (sample_api\<lparr>d2i_PKCS12 := \<lambda>_. Some SKey\<rparr>) (der_ba []) ''x'' = Inl AssertFail"
  by (rule FromPKCS12_asserts [of _ _ SKey _ "Some SKey" None None])
     (simp_all add: sample_api_def)

end
