(* ===== verification/HostMatch.thy ===== *)
theory HostMatch
  imports Certificates
begin

section \<open>Matching host names\<close>

text \<open>
  \<open>VerifyHostname\<close>, \<open>HostnameExprMatch\<close> and \<open>LowerCaseHostnameVector\<close> of
  \<open>src/X509HostnameVerifier.cpp\<close>, the loops as tail recursions over the string, over the index and
  over the vector of names. The abstract view is of dotted
  names: \<open>dotted ls\<close> is the name with the labels \<open>ls\<close>, every name is \<open>dotted\<close> of exactly one
  non-empty list of dot-free labels, and matching is label by label.
\<close>

definition lower_ascii :: "char \<Rightarrow> char" where
  "lower_ascii c =
     (if of_char CHR ''A'' \<le> (of_char c :: nat) \<and> (of_char c :: nat) \<le> of_char CHR ''Z''
      then char_of ((of_char c :: nat) - of_char CHR ''A'' + of_char CHR ''a'') else c)"

fun LowerCaseHostnameVector_loop :: "string \<Rightarrow> string list \<Rightarrow> string \<Rightarrow> string list" where
  "LowerCaseHostnameVector_loop [] components lower = components @ [lower]"
| "LowerCaseHostnameVector_loop (c # hostname) components lower =
     (if c = CHR ''.'' then LowerCaseHostnameVector_loop hostname (components @ [lower]) []
      else LowerCaseHostnameVector_loop hostname components (lower @ [lower_ascii c]))"

definition LowerCaseHostnameVector :: "string \<Rightarrow> string list" where
  "LowerCaseHostnameVector hostname = LowerCaseHostnameVector_loop hostname [] []"

text \<open>The loop over the components, from index \<open>i\<close>; both vectors have the same size there.\<close>

function HostnameExprMatch_loop :: "string list \<Rightarrow> string list \<Rightarrow> nat \<Rightarrow> bool" where
  "HostnameExprMatch_loop vhostexpr vhostname i =
     (if i < length vhostname
      then (let cexpr = vhostexpr ! i; chost = vhostname ! i
            in if cexpr = ''*'' then HostnameExprMatch_loop vhostexpr vhostname (Suc i)
               else if cexpr \<noteq> chost then False
               else HostnameExprMatch_loop vhostexpr vhostname (Suc i))
      else True)"
  by pat_completeness auto
termination
  by (relation "measure (\<lambda>(e, h, i). length h - i)") auto

declare HostnameExprMatch_loop.simps [simp del]

definition HostnameExprMatch :: "string \<Rightarrow> string \<Rightarrow> bool" where
  "HostnameExprMatch hostexpr hostname =
     (let vhostexpr = LowerCaseHostnameVector hostexpr;
          vhostname = LowerCaseHostnameVector hostname
      in if length vhostexpr = 0 \<or> length vhostname = 0 then False
         else if length vhostexpr \<noteq> length vhostname then False
         else HostnameExprMatch_loop vhostexpr vhostname 0)"

fun VerifyHostname_loop :: "string list \<Rightarrow> string \<Rightarrow> bool" where
  "VerifyHostname_loop [] hostname = False"
| "VerifyHostname_loop (dns_name # rest) hostname =
     (if HostnameExprMatch dns_name hostname then True else VerifyHostname_loop rest hostname)"

definition VerifyHostname :: "x509cert \<Rightarrow> string \<Rightarrow> bool" where
  "VerifyHostname cert hostname =
     (let dns_names = DNSNames cert
      in if length dns_names > 0 then VerifyHostname_loop dns_names hostname
         else (let cn = CommonName cert
               in if HostnameExprMatch cn hostname then True else False))"

subsection \<open>Dotted names\<close>

fun dotted :: "string list \<Rightarrow> string" where
  "dotted [] = []"
| "dotted [l] = l"
| "dotted (l # ls) = l @ CHR ''.'' # dotted ls"

definition is_labels :: "string list \<Rightarrow> bool" where
  "is_labels ls \<longleftrightarrow> ls \<noteq> [] \<and> (\<forall>l \<in> set ls. CHR ''.'' \<notin> set l)"

definition label_matches :: "string \<Rightarrow> string \<Rightarrow> bool" where
  "label_matches p l \<longleftrightarrow> p = ''*'' \<or> map lower_ascii p = map lower_ascii l"

lemma is_labels_Cons: "is_labels (l # ls) \<longleftrightarrow> CHR ''.'' \<notin> set l \<and> (ls = [] \<or> is_labels ls)"
  by (auto simp: is_labels_def)

lemma dotted_Cons: "ls \<noteq> [] \<Longrightarrow> dotted (l # ls) = l @ CHR ''.'' # dotted ls"
  by (cases ls) simp_all

text \<open>Every string is a dotted name.\<close>

lemma ex_labels: "\<exists>ls. is_labels ls \<and> dotted ls = s"
proof (induction s)
  case Nil
  show ?case by (rule exI [of _ "[[]]"]) (simp add: is_labels_def)
next
  case (Cons c s)
  then obtain l ls where l: "is_labels (l # ls)" "dotted (l # ls) = s"
    by (metis is_labels_def list.exhaust)
  show ?case
  proof (cases "c = CHR ''.''")
    case True
    with l show ?thesis by (intro exI [of _ "[] # l # ls"]) (simp add: is_labels_Cons)
  next
    case False
    with l show ?thesis
      by (intro exI [of _ "(c # l) # ls"]) (cases ls; simp add: is_labels_Cons)
  qed
qed

lemma loop_label:
  "CHR ''.'' \<notin> set l \<Longrightarrow> LowerCaseHostnameVector_loop (l @ s) comps low =
     LowerCaseHostnameVector_loop s comps (low @ map lower_ascii l)"
  by (induction l arbitrary: low) auto

lemma loop_dotted:
  "is_labels (l # ls) \<Longrightarrow> LowerCaseHostnameVector_loop (dotted (l # ls)) comps low =
     comps @ (low @ map lower_ascii l) # map (map lower_ascii) ls"
proof (induction ls arbitrary: l comps low)
  case Nil
  then show ?case using loop_label [of l "[]"] by (simp add: is_labels_Cons)
next
  case (Cons m ls)
  then show ?case
    using loop_label [of l "CHR ''.'' # dotted (m # ls)"]
    by (simp add: is_labels_Cons [of l] dotted_Cons)
qed

lemma LowerCaseHostnameVector_dotted:
  "is_labels ls \<Longrightarrow> LowerCaseHostnameVector (dotted ls) = map (map lower_ascii) ls"
  by (cases ls) (simp_all add: LowerCaseHostnameVector_def loop_dotted is_labels_def [of "[]"])

lemma lower_ascii_code:
  "of_char (lower_ascii c) =
     (if 65 \<le> (of_char c :: nat) \<and> (of_char c :: nat) \<le> 90 then of_char c + 32 else (of_char c :: nat))"
  by (auto simp: lower_ascii_def of_char_of)

lemma lower_ascii_idem [simp]: "lower_ascii (lower_ascii c) = lower_ascii c"
  using lower_ascii_code [of c] by (auto simp: lower_ascii_def [of "lower_ascii c"])

lemma lower_ascii_star [simp]: "lower_ascii c = CHR ''*'' \<longleftrightarrow> c = CHR ''*''"
proof -
  have "lower_ascii c = CHR ''*'' \<longleftrightarrow> (of_char (lower_ascii c) :: nat) = of_char CHR ''*''"
    and "c = CHR ''*'' \<longleftrightarrow> (of_char c :: nat) = of_char CHR ''*''"
    by (simp_all only: of_char_eq_iff)
  then show ?thesis by (auto simp: lower_ascii_code)
qed

lemma map_lower_star: "map lower_ascii p = ''*'' \<longleftrightarrow> p = ''*''"
  by (cases p) auto

lemma lower_ascii_dot [simp]: "lower_ascii c = CHR ''.'' \<longleftrightarrow> c = CHR ''.''"
proof -
  have "lower_ascii c = CHR ''.'' \<longleftrightarrow> (of_char (lower_ascii c) :: nat) = of_char CHR ''.''"
    and "c = CHR ''.'' \<longleftrightarrow> (of_char c :: nat) = of_char CHR ''.''"
    by (simp_all only: of_char_eq_iff)
  then show ?thesis by (auto simp: lower_ascii_code)
qed

text \<open>Lowering a dotted name lowers its labels.\<close>

lemma is_labels_lower [simp]: "is_labels (map (map lower_ascii) ls) \<longleftrightarrow> is_labels ls"
proof -
  have "CHR ''.'' \<in> lower_ascii ` set l \<longleftrightarrow> CHR ''.'' \<in> set l" for l
    by (metis image_iff lower_ascii_dot)
  then show ?thesis by (auto simp: is_labels_def)
qed

lemma dotted_lower: "dotted (map (map lower_ascii) ls) = map lower_ascii (dotted ls)"
proof (induction ls rule: dotted.induct)
  case (3 l m ls)
  then show ?case by (simp add: lower_ascii_def)
qed simp_all

lemma dotted_inject:
  assumes "is_labels ls" "is_labels ms" "dotted ls = dotted ms"
  shows "map (map lower_ascii) ls = map (map lower_ascii) ms"
  using assms by (metis LowerCaseHostnameVector_dotted)

lemma HostnameExprMatch_loop_iff:
  "length es = length hs \<Longrightarrow> HostnameExprMatch_loop es hs i \<longleftrightarrow>
     (\<forall>j. i \<le> j \<longrightarrow> j < length hs \<longrightarrow> es ! j = ''*'' \<or> es ! j = hs ! j)"
proof (induction es hs i rule: HostnameExprMatch_loop.induct)
  case (1 es hs i)
  show ?case
  proof (cases "i < length hs")
    case False
    then show ?thesis by (simp add: HostnameExprMatch_loop.simps [of es hs i])
  next
    case True
    have split: "(\<forall>j. i \<le> j \<longrightarrow> j < length hs \<longrightarrow> P j) \<longleftrightarrow>
        P i \<and> (\<forall>j. Suc i \<le> j \<longrightarrow> j < length hs \<longrightarrow> P j)" for P
      using True by (metis Suc_leD Suc_le_eq le_neq_implies_less order_refl)
    show ?thesis
      using 1 True by (subst split) (auto simp: HostnameExprMatch_loop.simps [of es hs i] Let_def)
  qed
qed

lemma HostnameExprMatch_dotted:
  assumes "is_labels ps" "is_labels ls"
  shows "HostnameExprMatch (dotted ps) (dotted ls) \<longleftrightarrow> list_all2 label_matches ps ls"
proof (cases "length ps = length ls")
  case False
  then show ?thesis
    using assms by (auto simp: HostnameExprMatch_def LowerCaseHostnameVector_dotted
        dest: list_all2_lengthD)
next
  case True
  moreover have "ps \<noteq> []" "ls \<noteq> []" using assms by (auto simp: is_labels_def)
  ultimately show ?thesis
    using assms
    by (auto simp: HostnameExprMatch_def LowerCaseHostnameVector_dotted Let_def
        HostnameExprMatch_loop_iff list_all2_conv_all_nth label_matches_def map_lower_star)
qed

lemma VerifyHostname_loop_iff:
  "VerifyHostname_loop names h \<longleftrightarrow> (\<exists>e \<in> set names. HostnameExprMatch e h)"
  by (induction names) auto

lemma VerifyHostname_iff:
  "VerifyHostname c h \<longleftrightarrow>
     (\<exists>e \<in> set (if DNSNames c = [] then [CommonName c] else DNSNames c). HostnameExprMatch e h)"
  by (simp add: VerifyHostname_def VerifyHostname_loop_iff Let_def)

subsection \<open>Properties\<close>

text \<open>C10: the decision of \<open>VerifyHostname\<close> for a certificate that decodes: with DNS names among its
  alternative names the host name matches one of them label by label and the common name plays no
  part; without them the host name matches the common name, the empty string when the subject
  has none.\<close>

theorem VerifyHostname_decides:
  assumes "x509_codec api certs keys" and "obtainable_cert api c" and "AsOpenSSLX509 api c = Some x"
    and "names = alt_strings api GEN_DNS (X509_get_alt_names api x)"
    and "cn = lookup_item (ParseX509Name api (X509_get_subject_name api x)) ''CN''"
    and "is_labels ls"
  shows "VerifyHostname c (dotted ls) \<longleftrightarrow>
    (\<exists>ps. is_labels ps \<and> dotted ps \<in> set (if names = [] then [cn] else names)
      \<and> list_all2 label_matches ps ls)"
proof -
  obtain der priv where "c = cert_of api der priv"
    using obtainable_consistent [OF assms(1,2)] by (auto simp: cert_consistent_def)
  then have "DNSNames c = names" "CommonName c = cn"
    using assms(3-5)
    by (simp_all add: AsOpenSSLX509_def cert_of_fields DNSNames_def CommonName_def split: option.splits)
  then have "VerifyHostname c (dotted ls) \<longleftrightarrow>
      (\<exists>e \<in> set (if names = [] then [cn] else names). HostnameExprMatch e (dotted ls))"
    by (simp only: VerifyHostname_iff)
  also have "... \<longleftrightarrow> (\<exists>ps. is_labels ps \<and> dotted ps \<in> set (if names = [] then [cn] else names)
      \<and> list_all2 label_matches ps ls)"
    using HostnameExprMatch_dotted [OF _ assms(6)] ex_labels by metis
  finally show ?thesis .
qed

theorem VerifyHostname_decides_witness:
  "VerifyHostname (encoded_cert sample_api SCert None) (dotted [''Mumble User''])"
proof -
  have "obtainable_cert sample_api (encoded_cert sample_api SCert None)"
    by (rule obtainable_cert.from_der [of "der_ba [Some CHR ''C'']" ByteArray_null])
       (simp_all add: FromRawDERData_wf encoded_cert_def)
  moreover have "AsOpenSSLX509 sample_api (encoded_cert sample_api SCert None) = Some SCert"
    by (simp add: encoded_cert_def AsOpenSSLX509_cert_of)
  moreover have labels: "is_labels [''Mumble User'']" by (simp add: is_labels_def)
  moreover have "alt_strings sample_api GEN_DNS (X509_get_alt_names sample_api SCert) = [''Mumble User'']"
    by (simp add: alt_strings_def StringFromASN1String_def)
  ultimately show ?thesis
    using VerifyHostname_decides [OF sample_x509_codec _ _ refl refl labels]
    by (auto simp: label_matches_def intro!: exI [of _ "[''Mumble User'']"])
qed

text \<open>C15: A host name matches an expression exactly when the two have the same number of
  dot-separated labels and each label of the expression is a lone \<open>*\<close> or equal to the label at its
  place up to ASCII case: a wildcard stands for one whole label and nothing else.\<close>

theorem HostnameExprMatch_labelwise:
  "HostnameExprMatch e h \<longleftrightarrow>
     (\<exists>ps ls. is_labels ps \<and> dotted ps = e \<and> is_labels ls \<and> dotted ls = h
        \<and> list_all2 label_matches ps ls)"
  using HostnameExprMatch_dotted ex_labels by metis

text \<open>Matching ignores the case of ASCII letters in the expression and in the host name.\<close>

theorem HostnameExprMatch_case_insensitive:
  "HostnameExprMatch (map lower_ascii e) (map lower_ascii h) = HostnameExprMatch e h"
proof -
  obtain ps ls where l: "is_labels ps" "dotted ps = e" "is_labels ls" "dotted ls = h"
    using ex_labels by metis
  have "list_all2 label_matches (map (map lower_ascii) ps) (map (map lower_ascii) ls)
      = list_all2 label_matches ps ls"
    by (simp add: list_all2_map1 list_all2_map2 label_matches_def [abs_def] map_lower_star comp_def)
  with l show ?thesis
    using HostnameExprMatch_dotted [of "map (map lower_ascii) ps" "map (map lower_ascii) ls"]
    by (simp add: dotted_lower flip: HostnameExprMatch_dotted)
qed

text \<open>An expression without a wildcard label matches exactly the host names that are equal to
  it up to ASCII case; in particular a name cut short by a NUL byte does not match.\<close>

theorem HostnameExprMatch_literal:
  assumes "CHR ''*'' \<notin> set e"
  shows "HostnameExprMatch e h \<longleftrightarrow> map lower_ascii e = map lower_ascii h"
proof -
  obtain ps ls where l: "is_labels ps" "dotted ps = e" "is_labels ls" "dotted ls = h"
    using ex_labels by metis
  have "set p \<subseteq> set (dotted ps)" if "p \<in> set ps" for p
    using that by (induction ps rule: dotted.induct) auto
  then have "\<forall>p \<in> set ps. p \<noteq> ''*''" using assms l(2) by fastforce
  then have "list_all2 label_matches ps ls \<longleftrightarrow> map (map lower_ascii) ps = map (map lower_ascii) ls"
    by (fastforce simp: label_matches_def list_all2_conv_all_nth list_eq_iff_nth_eq)
  also have "\<dots> \<longleftrightarrow> dotted (map (map lower_ascii) ps) = dotted (map (map lower_ascii) ls)"
    using dotted_inject [of "map (map lower_ascii) ps" "map (map lower_ascii) ls"] l(1,3)
    by (auto simp: comp_def)
  finally show ?thesis
    using HostnameExprMatch_dotted [OF l(1,3)] l(2,4) by (simp add: dotted_lower)
qed

theorem HostnameExprMatch_literal_witness:
  "HostnameExprMatch ''Mumble.info'' ''mUMBLE.INFO''
   \<and> \<not> HostnameExprMatch (''www.bank.com'' @ [CHR 0x00] @ ''.evil.com'') ''www.bank.com''"
proof
  have "map lower_ascii ''Mumble.info'' = map lower_ascii ''mUMBLE.INFO''"
    by (simp add: lower_ascii_def char_of_def bit_Suc_0_iff)
  then show "HostnameExprMatch ''Mumble.info'' ''mUMBLE.INFO''"
    by (rule HostnameExprMatch_literal [THEN iffD2, rotated]) simp
  have "length (map lower_ascii (''www.bank.com'' @ [CHR 0x00] @ ''.evil.com''))
      \<noteq> length (map lower_ascii ''www.bank.com'')" by simp
  then show "\<not> HostnameExprMatch (''www.bank.com'' @ [CHR 0x00] @ ''.evil.com'') ''www.bank.com''"
    by (subst HostnameExprMatch_literal) auto
qed

end
