(* ===== verification/Verifiers.thy ===== *)
theory Verifiers
  imports HostMatch Errors "HOL-Library.List_Lexorder" "HOL-Library.Char_ord"
begin

section \<open>Verifying certificate chains\<close>

text \<open>
  \<open>X509PEMVerifier\<close> of \<open>src/X509PEMVerifier.cpp\<close> and the system verifiers built on it:
  \<open>src/X509Verifier_unix.cpp\<close>, which reads the first of its bundles that has any bytes, and
  \<open>src/X509Verifier_android.cpp\<close>, which reads the files of the system's directory of roots less
  the removed ones, and those of the directory of added ones.

  The store of trusted certificates is the list of the handles added to it. OpenSSL's PEM reader and
  chain verification, the clock, the files and the directories are parameters. A file is read
  through \<open>ifstream\<close>, whose state the loop keeps: the unread bytes and whether it is still good.
\<close>

subsection \<open>The PEM verifier\<close>

datatype x509_purpose = X509_PURPOSE_SSL_SERVER

datatype x509_trust = X509_TRUST_SSL_SERVER

record 'h verify_ctx =
  vc_store :: "'h list"
  vc_cert :: "'h option"
  vc_untrusted :: "'h option list"
  vc_time :: int
  vc_purpose :: "x509_purpose option"
  vc_trust :: "x509_trust option"

record 'h pem_api = "'h x509_api" +
  PEM_read_bio_X509_AUX :: "cell list \<Rightarrow> ('h \<times> cell list) option"
  X509_verify_cert :: "'h verify_ctx \<Rightarrow> int"
  std_time :: int

record verifier_options =
  opt_dns_name :: string
  opt_time :: int

definition X509PEMVerifier_new :: "'h list" where
  "X509PEMVerifier_new = []"

text \<open>
  \<open>AddPEM\<close> leaves its loop only through the return in it. Each round reads the next certificate of
  the memory \<open>BIO\<close>. The number of certificates is counted and not used.
\<close>

partial_function (option) AddPEM_loop ::
    "('h, 'z) pem_api_scheme \<Rightarrow> cell list \<Rightarrow> 'h list \<Rightarrow> int \<Rightarrow> (bool \<times> 'h list) option" where
  "AddPEM_loop api mem store ncerts =
     (case PEM_read_bio_X509_AUX api mem of
        None \<Rightarrow> Some (False, store)
      | Some (x, mem') \<Rightarrow> AddPEM_loop api mem' (store @ [x]) (ncerts + 1))"

definition AddPEM ::
    "('h, 'z) pem_api_scheme \<Rightarrow> 'h list \<Rightarrow> bytearray \<Rightarrow> (bool \<times> 'h list) option" where
  "AddPEM api store buf = AddPEM_loop api (content buf) store 0"

text \<open>
  A context as \<open>X509_STORE_CTX_init\<close> leaves it: for the current time, and without a purpose and a trust
  setting. \<open>VerifyChain\<close> then sets these three.
\<close>

definition X509_STORE_CTX_init ::
    "('h, 'z) pem_api_scheme \<Rightarrow> 'h list \<Rightarrow> 'h option \<Rightarrow> 'h option list \<Rightarrow> 'h verify_ctx" where
  "X509_STORE_CTX_init api store cert untrusted = \<lparr>vc_store = store, vc_cert = cert, vc_untrusted = untrusted,
     vc_time = std_time api, vc_purpose = None, vc_trust = None\<rparr>"

definition PEM_VerifyChain ::
    "('h, 'z) pem_api_scheme \<Rightarrow> 'h list \<Rightarrow> x509cert list \<Rightarrow> verifier_options \<Rightarrow> bool" where
  "PEM_VerifyChain api store chain opts =
     (case chain of
        [] \<Rightarrow> False
      | leaf # _ \<Rightarrow>
          if opt_dns_name opts \<noteq> [] \<and> \<not> VerifyHostname leaf (opt_dns_name opts) then False
          else
            (let untrusted = map (AsOpenSSLX509 api) chain;
                 ctx = X509_STORE_CTX_init api store (untrusted ! 0) untrusted;
                 ctx = (if opt_time opts = 0 then ctx\<lparr>vc_time := std_time api\<rparr>
                        else ctx\<lparr>vc_time := opt_time opts\<rparr>);
                 ctx = (if opt_dns_name opts \<noteq> []
                        then (let ctx = ctx\<lparr>vc_purpose := Some X509_PURPOSE_SSL_SERVER\<rparr>
                              in ctx\<lparr>vc_trust := Some X509_TRUST_SSL_SERVER\<rparr>)
                        else ctx)
             in if X509_verify_cert api ctx = 1 then True else False))"

subsection \<open>Reading files\<close>

text \<open>\<open>ifstream::read\<close> of \<open>n\<close> bytes: what it got, what is left, and whether the stream is still good.
  A short read sets the end-of-file and the fail bit.\<close>

definition ifs_read :: "cell list \<Rightarrow> nat \<Rightarrow> cell list \<times> cell list \<times> bool" where
  "ifs_read rest n = (take n rest, drop n rest, n \<le> length rest)"

function read_chunks :: "bool \<Rightarrow> cell list \<Rightarrow> bytearray \<Rightarrow> bytearray res" where
  "read_chunks good rest ba =
     (if good
      then
        (let chunk = ByteArray_len 256;
             (got, rest', good') = ifs_read rest 256
         in bindR (Data_write chunk 0 got) (\<lambda>chunk.
            bindR (Truncate chunk (int (length got))) (\<lambda>chunk.
            bindR (if Length chunk > 0 then Append ba chunk else Inr ba) (\<lambda>ba.
              read_chunks good' rest' ba))))
      else Inr ba)"
  by pat_completeness auto
termination
  by (relation "measure (\<lambda>(good, rest, ba). if good then Suc (length rest) else 0)")
     (auto simp: ifs_read_def)

declare read_chunks.simps [simp del]

text \<open>A file system maps paths to contents; a file that does not open is not good.\<close>

type_synonym files = "string \<Rightarrow> cell list option"

definition read_pem_bundle :: "files \<Rightarrow> string \<Rightarrow> bytearray res" where
  "read_pem_bundle fs fn =
     (case fs fn of
        None \<Rightarrow> read_chunks False [] ByteArray_null
      | Some bytes \<Rightarrow> read_chunks True bytes ByteArray_null)"

definition read_caroot_pem :: "files \<Rightarrow> string \<Rightarrow> string \<Rightarrow> bytearray res" where
  "read_caroot_pem fs dir fn =
     (case fs (dir @ ''/'' @ fn) of
        None \<Rightarrow> read_chunks False [] ByteArray_null
      | Some bytes \<Rightarrow> read_chunks True bytes ByteArray_null)"

subsection \<open>The unix verifier\<close>

definition bundles :: "string list" where
  "bundles = [''/etc/ssl/certs/ca-certificates.crt'']"

text \<open>\<open>AddPEM\<close>'s result may be missing when its loop does not end; that is the fault \<open>OutOfFuel\<close>.\<close>

definition add_pem ::
    "('h, 'z) pem_api_scheme \<Rightarrow> 'h list \<Rightarrow> bytearray \<Rightarrow> 'h list res" where
  "add_pem api store buf =
     (case AddPEM api store buf of None \<Rightarrow> Inl OutOfFuel | Some (_, store') \<Rightarrow> Inr store')"

fun read_bundles ::
    "('h, 'z) pem_api_scheme \<Rightarrow> files \<Rightarrow> string list \<Rightarrow> 'h list \<Rightarrow> 'h list res" where
  "read_bundles api fs [] store = Inr store"
| "read_bundles api fs (b # bs) store =
     bindR (read_pem_bundle fs b) (\<lambda>bundle.
       if Length bundle > 0 then add_pem api store bundle
       else read_bundles api fs bs store)"

text \<open>The constructor; \<open>system\<close> is the build option \<open>LIBMUMBLE_SYSTEM_OPENSSL\<close> with the certificates of
  OpenSSL's default paths.\<close>

definition X509VerifierPrivate_unix ::
    "('h, 'z) pem_api_scheme \<Rightarrow> files \<Rightarrow> 'h list option \<Rightarrow> 'h list res" where
  "X509VerifierPrivate_unix api fs system =
     (case system of
        Some defaults \<Rightarrow> Inr (X509PEMVerifier_new @ defaults)
      | None \<Rightarrow> read_bundles api fs bundles X509PEMVerifier_new)"

subsection \<open>The Android verifier\<close>

text \<open>Directories map paths to the names of their entries, in the order \<open>readdir\<close> gives them.\<close>

type_synonym dirs = "string \<Rightarrow> string list option"

fun read_caroot_dir_loop :: "string list \<Rightarrow> string set \<Rightarrow> string set" where
  "read_caroot_dir_loop [] roots = roots"
| "read_caroot_dir_loop (dent # dents) roots =
     (if dent \<noteq> [] \<and> hd dent = CHR ''.'' then read_caroot_dir_loop dents roots
      else read_caroot_dir_loop dents (insert dent roots))"

definition read_caroot_dir :: "dirs \<Rightarrow> string \<Rightarrow> string set" where
  "read_caroot_dir dirs path =
     (case dirs path of None \<Rightarrow> {} | Some dents \<Rightarrow> read_caroot_dir_loop dents {})"

fun add_roots ::
    "('h, 'z) pem_api_scheme \<Rightarrow> files \<Rightarrow> string \<Rightarrow> string list \<Rightarrow> 'h list \<Rightarrow> 'h list res" where
  "add_roots api fs dir [] store = Inr store"
| "add_roots api fs dir (fn # fns) store =
     bindR (read_caroot_pem fs dir fn) (\<lambda>pem_bytes.
     bindR (add_pem api store pem_bytes) (\<lambda>store.
       add_roots api fs dir fns store))"

definition cacerts_path :: string where
  "cacerts_path = ''/system/etc/security/cacerts''"

definition cacerts_removed_path :: string where
  "cacerts_removed_path = ''/data/misc/keychain/cacerts-removed''"

definition cacerts_added_path :: string where
  "cacerts_added_path = ''/data/misc/keychain/cacerts-added''"

definition ReadSystemRoots ::
    "('h, 'z) pem_api_scheme \<Rightarrow> files \<Rightarrow> dirs \<Rightarrow> 'h list \<Rightarrow> 'h list res" where
  "ReadSystemRoots api fs dirs store =
     (let cacerts = read_caroot_dir dirs cacerts_path;
          cacerts_removed = read_caroot_dir dirs cacerts_removed_path;
          cacerts_added = read_caroot_dir dirs cacerts_added_path;
          cacerts_filtered = cacerts - cacerts_removed
      in bindR (add_roots api fs cacerts_path (sorted_list_of_set cacerts_filtered) store) (\<lambda>store.
           add_roots api fs cacerts_added_path (sorted_list_of_set cacerts_added) store))"

text \<open>The constructor of the Android verifier.\<close>

definition X509VerifierPrivate_android ::
    "('h, 'z) pem_api_scheme \<Rightarrow> files \<Rightarrow> dirs \<Rightarrow> 'h list res" where
  "X509VerifierPrivate_android api fs dirs = ReadSystemRoots api fs dirs X509PEMVerifier_new"

subsection \<open>The public interface\<close>

text \<open>
  \<open>SystemVerifier\<close> returns the verifier \<open>system_verifier_ptr_\<close> points to, which \<open>uv_once\<close> makes. \<open>made\<close> is
  what the constructor makes at the time of the call, of the files as they are then.
\<close>

definition InitializeSystemVerifier :: "'v \<Rightarrow> 'v option \<Rightarrow> 'v option" where
  "InitializeSystemVerifier made system_verifier_ptr = Some made"

definition SystemVerifier ::
    "(('v option \<Rightarrow> 'v option) \<Rightarrow> 'g \<times> 'v option \<Rightarrow> 'g \<times> 'v option) \<Rightarrow> 'v \<Rightarrow> 'g \<times> 'v option \<Rightarrow>
       ('v \<times> 'g \<times> 'v option) res" where
  "SystemVerifier uv_once made st =
     (let st = uv_once (InitializeSystemVerifier made) st
      in case snd st of None \<Rightarrow> Inl OutOfBounds | Some v \<Rightarrow> Inr (v, st))"

definition VerifyChain ::
    "('h, 'z) pem_api_scheme \<Rightarrow> 'h list \<Rightarrow> x509cert list \<Rightarrow> verifier_options \<Rightarrow> bool" where
  "VerifyChain api pem_verifier chain opts = PEM_VerifyChain api pem_verifier chain opts"

text \<open>The same three functions of the Android sources.\<close>

definition InitializeSystemVerifier_android :: "'v \<Rightarrow> 'v option \<Rightarrow> 'v option" where
  "InitializeSystemVerifier_android made system_verifier_ptr = Some made"

definition SystemVerifier_android ::
    "(('v option \<Rightarrow> 'v option) \<Rightarrow> 'g \<times> 'v option \<Rightarrow> 'g \<times> 'v option) \<Rightarrow> 'v \<Rightarrow> 'g \<times> 'v option \<Rightarrow>
       ('v \<times> 'g \<times> 'v option) res" where
  "SystemVerifier_android uv_once made st =
     (let st = uv_once (InitializeSystemVerifier_android made) st
      in case snd st of None \<Rightarrow> Inl OutOfBounds | Some v \<Rightarrow> Inr (v, st))"

definition VerifyChain_android ::
    "('h, 'z) pem_api_scheme \<Rightarrow> 'h list \<Rightarrow> x509cert list \<Rightarrow> verifier_options \<Rightarrow> bool" where
  "VerifyChain_android api pem_verifier chain opts = PEM_VerifyChain api pem_verifier chain opts"

subsection \<open>What AddPEM adds\<close>

text \<open>The certificates the reader takes out of a buffer before it first fails.\<close>

inductive pem_reads :: "('h, 'z) pem_api_scheme \<Rightarrow> cell list \<Rightarrow> 'h list \<Rightarrow> bool" for api where
  stop: "PEM_read_bio_X509_AUX api mem = None \<Longrightarrow> pem_reads api mem []"
| cert: "PEM_read_bio_X509_AUX api mem = Some (x, mem') \<Longrightarrow> pem_reads api mem' xs \<Longrightarrow>
    pem_reads api mem (x # xs)"

inductive_simps pem_reads_iff: "pem_reads api mem xs"

text \<open>Documented of the reader: it consumes what it returns a certificate for.\<close>

definition pem_progress :: "('h, 'z) pem_api_scheme \<Rightarrow> bool" where
  "pem_progress api \<longleftrightarrow> (\<forall>mem x mem'. PEM_read_bio_X509_AUX api mem = Some (x, mem') \<longrightarrow>
     length mem' < length mem)"

lemma pem_reads_unique: "pem_reads api mem xs \<Longrightarrow> pem_reads api mem ys \<Longrightarrow> xs = ys"
proof (induction arbitrary: ys rule: pem_reads.induct)
  case (stop mem)
  then show ?case by (auto elim: pem_reads.cases)
next
  case (cert mem x mem' xs)
  from cert.prems cert.hyps(1) obtain zs where "ys = x # zs" "pem_reads api mem' zs"
    by (auto elim: pem_reads.cases)
  with cert.IH show ?case by simp
qed

lemma pem_reads_ex:
  assumes "pem_progress api"
  shows "\<exists>xs. pem_reads api mem xs"
proof (induction mem rule: length_induct)
  case (1 mem)
  show ?case
  proof (cases "PEM_read_bio_X509_AUX api mem")
    case None
    then show ?thesis by (auto intro: pem_reads.stop)
  next
    case (Some r)
    obtain x mem' where r: "r = (x, mem')" by (cases r)
    then have "length mem' < length mem" using assms Some by (simp add: pem_progress_def)
    then obtain xs where "pem_reads api mem' xs" using 1 by blast
    then show ?thesis using Some r by (auto intro: pem_reads.cert)
  qed
qed

lemma AddPEM_loop_reads:
  "pem_reads api mem xs \<Longrightarrow> AddPEM_loop api mem store n = Some (False, store @ xs)"
proof (induction arbitrary: store n rule: pem_reads.induct)
  case (stop mem)
  then show ?case by (simp add: AddPEM_loop.simps)
next
  case (cert mem x mem' xs)
  then show ?case by (subst AddPEM_loop.simps) simp
qed

lemma add_pem_reads:
  "pem_reads api (content buf) xs \<Longrightarrow> add_pem api store buf = Inr (store @ xs)"
  by (simp add: add_pem_def AddPEM_def AddPEM_loop_reads)

subsection \<open>What the loops read\<close>

lemma chunk_array:
  assumes "length got \<le> 256"
  shows "bindR (Data_write (ByteArray_len 256) 0 got) (\<lambda>chunk. Truncate chunk (int (length got))) =
    Inr \<lparr>ba_buf = Some (got @ replicate (256 - length got) None), ba_len = int (length got), ba_cap = 256\<rparr>"
  using assms
  by (simp add: Data_write_def ByteArray_len_def c_memcpy_def Truncate_def)

lemma read_chunks_step:
  "read_chunks True rest ba =
     bindR (bindR (Data_write (ByteArray_len 256) 0 (take 256 rest))
              (\<lambda>chunk. Truncate chunk (int (length (take 256 rest))))) (\<lambda>chunk.
     bindR (if Length chunk > 0 then Append ba chunk else Inr ba) (\<lambda>ba.
       read_chunks (256 \<le> length rest) (drop 256 rest) ba))"
  by (subst read_chunks.simps) (simp add: ifs_read_def Let_def bindR_assoc)

lemma read_chunks_spec:
  assumes "ba_wf ba" "ba_len ba + int (length rest) \<le> INT_MAX"
  shows "\<exists>r. read_chunks True rest ba = Inr r \<and> ba_wf r \<and> content r = content ba @ rest
    \<and> (rest = [] \<longrightarrow> r = ba)"
  using assms
proof (induction rest arbitrary: ba rule: length_induct)
  case (1 rest ba)
  define got where "got = take 256 rest"
  define chunk where "chunk = \<lparr>ba_buf = Some (got @ replicate (256 - length got) None),
    ba_len = int (length got), ba_cap = 256\<rparr>"
  have le: "length got \<le> 256" by (simp add: got_def)
  have chunk: "ba_wf chunk" "content chunk = got" "Length chunk = int (length got)"
    using le by (auto simp: chunk_def ba_defs)
  have made: "bindR (Data_write (ByteArray_len 256) 0 got)
      (\<lambda>chunk. Truncate chunk (int (length got))) = Inr chunk"
    unfolding chunk_def by (rule chunk_array [OF le])
  have step: "read_chunks True rest ba =
      bindR (if got \<noteq> [] then Append ba chunk else Inr ba) (\<lambda>ba.
        read_chunks (256 \<le> length rest) (drop 256 rest) ba)"
    unfolding read_chunks_step got_def [symmetric] made by (simp add: chunk(3))
  show ?case
  proof (cases "rest = []")
    case True
    then show ?thesis using step 1(2) by (simp add: got_def read_chunks.simps)
  next
    case False
    then have got: "got \<noteq> []" "length got \<le> length rest" by (simp_all add: got_def)
    have "ba_len ba + ba_len chunk \<le> INT_MAX"
      using 1(3) got(2) by (simp add: chunk_def)
    then obtain r where r: "Append ba chunk = Inr r" "ba_wf r" "content r = content ba @ got"
      "ba_len r = ba_len ba + int (length got)"
      using Append_spec [OF 1(2) chunk(1)] chunk(2) by (auto simp: chunk_def)
    show ?thesis
    proof (cases "256 \<le> length rest")
      case False
      then show ?thesis using step got r \<open>rest \<noteq> []\<close> by (auto simp: read_chunks.simps got_def)
    next
      case True
      have "ba_len r + int (length (drop 256 rest)) \<le> INT_MAX"
        using 1(3) r(4) True by (simp add: got_def)
      moreover have "length (drop 256 rest) < length rest" using True by simp
      ultimately obtain s where "read_chunks True (drop 256 rest) r = Inr s" "ba_wf s"
        "content s = content r @ drop 256 rest"
        using 1(1) r(2) by blast
      then show ?thesis using step got r True \<open>rest \<noteq> []\<close> by (simp add: got_def)
    qed
  qed
qed

lemma read_chunks_file:
  assumes "int (length bytes) \<le> INT_MAX"
  shows "\<exists>r. read_chunks True bytes ByteArray_null = Inr r \<and> ba_wf r \<and> content r = bytes
    \<and> (bytes = [] \<longrightarrow> r = ByteArray_null)"
proof -
  have "ba_len ByteArray_null + int (length bytes) \<le> INT_MAX"
    using assms by (simp add: ByteArray_null_def)
  from read_chunks_spec [OF ba_wf_null this] show ?thesis by simp
qed

lemma read_chunks_missing: "read_chunks False [] ByteArray_null = Inr ByteArray_null"
  by (simp add: read_chunks.simps)

subsection \<open>The roots of a directory\<close>

lemma read_caroot_dir_loop_eq:
  "read_caroot_dir_loop dents roots = roots \<union> {d \<in> set dents. d = [] \<or> hd d \<noteq> CHR ''.''}"
  by (induction dents arbitrary: roots) auto

lemma finite_read_caroot_dir: "finite (read_caroot_dir dirs path)"
  by (simp add: read_caroot_dir_def read_caroot_dir_loop_eq split: option.split)

text \<open>The certificate is in a file, before the first thing in it the reader cannot read.\<close>

definition in_file :: "('h, 'z) pem_api_scheme \<Rightarrow> files \<Rightarrow> string \<Rightarrow> 'h \<Rightarrow> bool" where
  "in_file api fs path x \<longleftrightarrow>
     (\<exists>xs. pem_reads api (case fs path of None \<Rightarrow> [] | Some bytes \<Rightarrow> bytes) xs \<and> x \<in> set xs)"

definition files_fit :: "files \<Rightarrow> bool" where
  "files_fit fs \<longleftrightarrow> (\<forall>path bytes. fs path = Some bytes \<longrightarrow> int (length bytes) \<le> INT_MAX)"

lemma read_caroot_pem_spec:
  assumes "files_fit fs"
  shows "\<exists>r. read_caroot_pem fs dir fn = Inr r
    \<and> content r = (case fs (dir @ ''/'' @ fn) of None \<Rightarrow> [] | Some bytes \<Rightarrow> bytes)"
  using assms read_chunks_file
  by (auto simp: read_caroot_pem_def read_chunks_missing files_fit_def split: option.split) blast

lemma add_roots_spec:
  assumes "pem_progress api" "files_fit fs"
  shows "\<exists>store'. add_roots api fs dir fns store = Inr store'
    \<and> set store' = set store \<union> {x. \<exists>fn \<in> set fns. in_file api fs (dir @ ''/'' @ fn) x}"
proof (induction fns arbitrary: store)
  case Nil
  show ?case by simp
next
  case (Cons fn fns)
  obtain r where r: "read_caroot_pem fs dir fn = Inr r"
    "content r = (case fs (dir @ ''/'' @ fn) of None \<Rightarrow> [] | Some bytes \<Rightarrow> bytes)"
    using read_caroot_pem_spec [OF assms(2)] by blast
  obtain xs where xs: "pem_reads api (content r) xs" using pem_reads_ex [OF assms(1)] by blast
  then have "in_file api fs (dir @ ''/'' @ fn) x \<longleftrightarrow> x \<in> set xs" for x
    unfolding in_file_def r(2) [symmetric] using pem_reads_unique by blast
  then show ?case
    using Cons [of "store @ xs"] r(1) add_pem_reads [OF xs] by auto
qed

subsection \<open>Properties\<close>

definition root_dir_entries :: "dirs \<Rightarrow> string \<Rightarrow> string set" where
  "root_dir_entries dirs path =
     {d. \<exists>dents. dirs path = Some dents \<and> d \<in> set dents \<and> (d = [] \<or> hd d \<noteq> CHR ''.'')}"

lemma read_caroot_dir_entries: "read_caroot_dir dirs path = root_dir_entries dirs path"
  by (auto simp: read_caroot_dir_def read_caroot_dir_loop_eq root_dir_entries_def split: option.split)

text \<open>C36: with a reader that consumes what it reads, \<open>AddPEM\<close> ends, adds to the store exactly the
  certificates before the first one that cannot be read, in their order, and returns false, whether
  the whole buffer could be read or not.\<close>

theorem AddPEM_adds:
  assumes "pem_progress api"
  shows "\<exists>xs. pem_reads api (content buf) xs \<and> AddPEM api store buf = Some (False, store @ xs)"
  using pem_reads_ex [OF assms, of "content buf"] by (auto simp: AddPEM_def AddPEM_loop_reads)

definition sample_pem :: "sample_h pem_api" where
  "sample_pem = x509_api.extend sample_api
     \<lparr>PEM_read_bio_X509_AUX = (\<lambda>mem. case mem of [] \<Rightarrow> None | b # mem' \<Rightarrow>
        if b = Some CHR ''C'' then Some (SCert, mem') else if b = Some CHR ''A'' then Some (SCA, mem')
        else if b = Some CHR ''R'' then Some (SRoot, mem') else None),
      X509_verify_cert = (\<lambda>ctx. if vc_cert ctx = Some SCert then 1 else 0),
      std_time = 1\<rparr>"

lemma sample_pem_read [simp]:
  "PEM_read_bio_X509_AUX sample_pem [] = None"
  "PEM_read_bio_X509_AUX sample_pem (b # mem) =
     (if b = Some CHR ''C'' then Some (SCert, mem) else if b = Some CHR ''A'' then Some (SCA, mem)
      else if b = Some CHR ''R'' then Some (SRoot, mem) else None)"
  by (simp_all add: sample_pem_def x509_api.defs pem_api.defs)

lemma sample_pem_reads [simp]:
  "pem_reads sample_pem [] xs \<longleftrightarrow> xs = []"
  "pem_reads sample_pem (b # mem) xs \<longleftrightarrow>
     (if b = Some CHR ''C'' then \<exists>ys. xs = SCert # ys \<and> pem_reads sample_pem mem ys
      else if b = Some CHR ''A'' then \<exists>ys. xs = SCA # ys \<and> pem_reads sample_pem mem ys
      else if b = Some CHR ''R'' then \<exists>ys. xs = SRoot # ys \<and> pem_reads sample_pem mem ys else xs = [])"
  by (subst pem_reads_iff; auto)+

lemma sample_pem_progress: "pem_progress sample_pem"
proof -
  have "length mem' < length mem" if "PEM_read_bio_X509_AUX sample_pem mem = Some (x, mem')" for mem x mem'
    using that by (cases mem) (auto split: if_splits)
  then show ?thesis by (simp add: pem_progress_def)
qed

text \<open>Two certificates, then something else, then a third.\<close>

theorem AddPEM_adds_witness:
  "AddPEM sample_pem [SRoot] (der_ba (map Some ''CAxC'')) = Some (False, [SRoot, SCert, SCA])"
  using AddPEM_adds [OF sample_pem_progress, of "der_ba (map Some ''CAxC'')" "[SRoot]"] by simp

text \<open>reading a bundle in chunks of 256 bytes returns every byte of the file in order, for files
  of every size an \<open>int\<close> can count, and the null array when there is no file or it is empty.\<close>

theorem read_pem_bundle_whole:
  assumes "\<forall>bytes. fs fn = Some bytes \<longrightarrow> int (length bytes) \<le> INT_MAX"
  shows "\<exists>ba. read_pem_bundle fs fn = Inr ba \<and> ba_wf ba
    \<and> content ba = (case fs fn of None \<Rightarrow> [] | Some bytes \<Rightarrow> bytes)
    \<and> (fs fn = None \<or> fs fn = Some [] \<longrightarrow> IsNull ba)"
proof (cases "fs fn")
  case None
  then show ?thesis by (simp add: read_pem_bundle_def read_chunks_missing IsNull_def)
     (simp add: ByteArray_null_def)
next
  case (Some bytes)
  then show ?thesis
    using read_chunks_file [of bytes] assms
    by (auto simp: read_pem_bundle_def IsNull_def ByteArray_null_def)
qed

theorem read_pem_bundle_whole_witness:
  "\<exists>ba. read_pem_bundle [''f'' \<mapsto> replicate 300 (Some CHR ''x'')] ''f'' = Inr ba
     \<and> content ba = replicate 300 (Some CHR ''x'')"
  using read_pem_bundle_whole [of "[''f'' \<mapsto> replicate 300 (Some CHR ''x'')]" "''f''"] by auto

text \<open>C37: on Android the trusted certificates are exactly those of the system's root files whose names
  are not among the removed ones and those of the added files; names that start with a dot are
  skipped, and a missing directory counts as empty.\<close>

theorem ReadSystemRoots_trusts:
  assumes "pem_progress api" and "files_fit fs"
  shows "\<exists>store. ReadSystemRoots api fs dirs [] = Inr store \<and> set store =
     {x. \<exists>fn \<in> root_dir_entries dirs cacerts_path - root_dir_entries dirs cacerts_removed_path.
          in_file api fs (cacerts_path @ ''/'' @ fn) x}
     \<union> {x. \<exists>fn \<in> root_dir_entries dirs cacerts_added_path.
          in_file api fs (cacerts_added_path @ ''/'' @ fn) x}"
proof -
  let ?roots = "root_dir_entries dirs cacerts_path - root_dir_entries dirs cacerts_removed_path"
  let ?added = "root_dir_entries dirs cacerts_added_path"
  have fin: "finite ?roots" "finite ?added"
    using finite_read_caroot_dir by (simp_all flip: read_caroot_dir_entries)
  obtain s1 where s1: "add_roots api fs cacerts_path (sorted_list_of_set ?roots) [] = Inr s1"
    "set s1 = {x. \<exists>fn \<in> ?roots. in_file api fs (cacerts_path @ ''/'' @ fn) x}"
    using add_roots_spec [OF assms, of cacerts_path "sorted_list_of_set ?roots" "[]"] fin by auto
  obtain s2 where "add_roots api fs cacerts_added_path (sorted_list_of_set ?added) s1 = Inr s2"
    "set s2 = set s1 \<union> {x. \<exists>fn \<in> ?added. in_file api fs (cacerts_added_path @ ''/'' @ fn) x}"
    using add_roots_spec [OF assms, of cacerts_added_path "sorted_list_of_set ?added" s1] fin by auto
  with s1 show ?thesis by (simp add: ReadSystemRoots_def read_caroot_dir_entries)
qed

text \<open>
  Roots \<open>a\<close> and \<open>b\<close> of the system, of which \<open>b\<close> has been removed; an added root \<open>u\<close>; and a hidden file in
  both directories.
\<close>

definition sample_dirs :: dirs where
  "sample_dirs = [cacerts_path \<mapsto> [''.'', ''a'', ''.old'', ''b''], cacerts_removed_path \<mapsto> [''b'', ''c''],
     cacerts_added_path \<mapsto> [''u'', ''.tmp'']]"

definition sample_files :: files where
  "sample_files = [cacerts_path @ ''/a'' \<mapsto> map Some ''CxA'', cacerts_path @ ''/b'' \<mapsto> map Some ''A'',
     cacerts_path @ ''/.old'' \<mapsto> map Some ''A'', cacerts_added_path @ ''/u'' \<mapsto> map Some ''R'',
     cacerts_added_path @ ''/.tmp'' \<mapsto> map Some ''A'']"

lemma sample_entries:
  "root_dir_entries sample_dirs cacerts_path = {''a'', ''b''}"
  "root_dir_entries sample_dirs cacerts_removed_path = {''b'', ''c''}"
  "root_dir_entries sample_dirs cacerts_added_path = {''u''}"
  by (auto simp: root_dir_entries_def sample_dirs_def cacerts_path_def cacerts_removed_path_def cacerts_added_path_def)

lemma sample_in_file:
  "in_file sample_pem sample_files (cacerts_path @ ''/'' @ ''a'') x \<longleftrightarrow> x = SCert"
  "in_file sample_pem sample_files (cacerts_path @ ''/'' @ ''b'') x \<longleftrightarrow> x = SCA"
  "in_file sample_pem sample_files (cacerts_added_path @ ''/'' @ ''u'') x \<longleftrightarrow> x = SRoot"
  by (simp_all add: in_file_def sample_files_def cacerts_path_def cacerts_added_path_def)

lemma sample_files_fit: "files_fit sample_files"
  by (auto simp: files_fit_def sample_files_def split: if_splits)

theorem ReadSystemRoots_trusts_witness:
  "\<exists>store. ReadSystemRoots sample_pem sample_files sample_dirs [] = Inr store \<and> set store = {SCert, SRoot}
     \<and> in_file sample_pem sample_files (cacerts_path @ ''/'' @ ''b'') SCA"
proof -
  have "{x. \<exists>fn \<in> {''a'', ''b''} - {''b'', ''c''}. in_file sample_pem sample_files (cacerts_path @ ''/'' @ fn) x} = {SCert}"
    "{x. \<exists>fn \<in> {''u''}. in_file sample_pem sample_files (cacerts_added_path @ ''/'' @ fn) x} = {SRoot}"
    using sample_in_file by auto
  then show ?thesis
    using ReadSystemRoots_trusts [OF sample_pem_progress sample_files_fit, of sample_dirs] sample_in_file(2)
    unfolding sample_entries by auto
qed

subsection \<open>Accepted chains\<close>

text \<open>
  What \<open>X509_verify_cert\<close> documents: it returns 1 only with a path from the certificate to be verified to
  one of the store, over certificates that came with it or are in the store, each signed with the key
  of the next and valid at the time of the context; when the context has a purpose the certificate
  serves it, and when it has a trust setting the end of the path is trusted for it. What these three
  mean of a certificate (\<open>valid_at\<close>, \<open>serves\<close>, \<open>trusts\<close>) is OpenSSL's.
\<close>

definition cert_path ::
    "('h, 'z) pem_api_scheme \<Rightarrow> ('h \<Rightarrow> int \<Rightarrow> bool) \<Rightarrow> ('h \<Rightarrow> x509_purpose \<Rightarrow> bool) \<Rightarrow> ('h \<Rightarrow> x509_trust \<Rightarrow> bool) \<Rightarrow>
       'h verify_ctx \<Rightarrow> 'h list \<Rightarrow> bool" where
  "cert_path api valid_at serves trusts ctx path \<longleftrightarrow>
     path \<noteq> [] \<and> vc_cert ctx = Some (hd path) \<and> last path \<in> set (vc_store ctx)
     \<and> (\<forall>x \<in> set path. x \<in> set (vc_store ctx) \<or> Some x \<in> set (vc_untrusted ctx))
     \<and> successively (\<lambda>x y. X509_verify api x (X509_get_pubkey api y) = 1) path
     \<and> (\<forall>x \<in> set path. valid_at x (vc_time ctx))
     \<and> (\<forall>p. vc_purpose ctx = Some p \<longrightarrow> serves (hd path) p)
     \<and> (\<forall>t. vc_trust ctx = Some t \<longrightarrow> trusts (last path) t)"

definition verify_documented ::
    "('h, 'z) pem_api_scheme \<Rightarrow> ('h \<Rightarrow> int \<Rightarrow> bool) \<Rightarrow> ('h \<Rightarrow> x509_purpose \<Rightarrow> bool) \<Rightarrow> ('h \<Rightarrow> x509_trust \<Rightarrow> bool) \<Rightarrow>
       bool" where
  "verify_documented api valid_at serves trusts \<longleftrightarrow>
     (\<forall>ctx. X509_verify_cert api ctx = 1 \<longrightarrow> (\<exists>path. cert_path api valid_at serves trusts ctx path))"

text \<open>The context an accepted chain was verified in.\<close>

lemma PEM_VerifyChain_ctx:
  "PEM_VerifyChain api store chain opts \<longleftrightarrow>
     (\<exists>leaf rest. chain = leaf # rest
       \<and> (opt_dns_name opts = [] \<or> VerifyHostname leaf (opt_dns_name opts))
       \<and> X509_verify_cert api
           \<lparr>vc_store = store, vc_cert = AsOpenSSLX509 api leaf, vc_untrusted = map (AsOpenSSLX509 api) chain,
            vc_time = (if opt_time opts = 0 then std_time api else opt_time opts),
            vc_purpose = (if opt_dns_name opts = [] then None else Some X509_PURPOSE_SSL_SERVER),
            vc_trust = (if opt_dns_name opts = [] then None else Some X509_TRUST_SSL_SERVER)\<rparr> = 1)"
  by (cases chain) (auto simp: PEM_VerifyChain_def X509_STORE_CTX_init_def Let_def)

text \<open>C38: An accepted chain leads to a root: its leaf is the start of a path of signatures, over
  certificates of the chain or roots, to one of the certificates that \<open>AddPEM\<close> has read, and all of the
  path is valid at the requested time, the current one for 0. When a host name was requested, the
  leaf's names match it, the leaf serves a TLS server, and the root is trusted for TLS servers. An
  empty chain is never accepted.\<close>

theorem PEM_VerifyChain_accepts:
  assumes "verify_documented api valid_at serves trusts" "pem_progress api"
    and "AddPEM api X509PEMVerifier_new buf = Some (ok, store)" "PEM_VerifyChain api store chain opts"
  shows "\<exists>leaf rest roots path. chain = leaf # rest \<and> pem_reads api (content buf) roots
    \<and> path \<noteq> [] \<and> AsOpenSSLX509 api leaf = Some (hd path) \<and> last path \<in> set roots
    \<and> (\<forall>x \<in> set path. x \<in> set roots \<or> (\<exists>c \<in> set chain. AsOpenSSLX509 api c = Some x))
    \<and> successively (\<lambda>x y. X509_verify api x (X509_get_pubkey api y) = 1) path
    \<and> (\<forall>x \<in> set path. valid_at x (if opt_time opts = 0 then std_time api else opt_time opts))
    \<and> (opt_dns_name opts \<noteq> [] \<longrightarrow>
        (\<exists>e \<in> set (if DNSNames leaf = [] then [CommonName leaf] else DNSNames leaf).
           HostnameExprMatch e (opt_dns_name opts))
        \<and> serves (hd path) X509_PURPOSE_SSL_SERVER \<and> trusts (last path) X509_TRUST_SSL_SERVER)"
proof -
  obtain roots where roots: "pem_reads api (content buf) roots" using pem_reads_ex [OF assms(2)] by blast
  then have store: "store = roots"
    using assms(3) by (simp add: AddPEM_def AddPEM_loop_reads X509PEMVerifier_new_def)
  obtain leaf rest where leaf: "chain = leaf # rest" "opt_dns_name opts = [] \<or> VerifyHostname leaf (opt_dns_name opts)"
    and v: "X509_verify_cert api
      \<lparr>vc_store = roots, vc_cert = AsOpenSSLX509 api leaf, vc_untrusted = map (AsOpenSSLX509 api) chain,
       vc_time = (if opt_time opts = 0 then std_time api else opt_time opts),
       vc_purpose = (if opt_dns_name opts = [] then None else Some X509_PURPOSE_SSL_SERVER),
       vc_trust = (if opt_dns_name opts = [] then None else Some X509_TRUST_SSL_SERVER)\<rparr> = 1"
    using assms(4) unfolding PEM_VerifyChain_ctx store by blast
  obtain path where path: "cert_path api valid_at serves trusts
      \<lparr>vc_store = roots, vc_cert = AsOpenSSLX509 api leaf, vc_untrusted = map (AsOpenSSLX509 api) chain,
       vc_time = (if opt_time opts = 0 then std_time api else opt_time opts),
       vc_purpose = (if opt_dns_name opts = [] then None else Some X509_PURPOSE_SSL_SERVER),
       vc_trust = (if opt_dns_name opts = [] then None else Some X509_TRUST_SSL_SERVER)\<rparr> path"
    using assms(1) v unfolding verify_documented_def by blast
  have "\<forall>x \<in> set path. x \<in> set roots \<or> (\<exists>c \<in> set chain. AsOpenSSLX509 api c = Some x)"
    using path by (fastforce simp: cert_path_def)
  moreover have "opt_dns_name opts \<noteq> [] \<longrightarrow>
      (\<exists>e \<in> set (if DNSNames leaf = [] then [CommonName leaf] else DNSNames leaf).
         HostnameExprMatch e (opt_dns_name opts))"
    using leaf(2) unfolding VerifyHostname_iff by blast
  ultimately show ?thesis
    by - (rule exI [of _ leaf], rule exI [of _ rest], rule exI [of _ roots], rule exI [of _ path],
      use roots leaf(1) path in \<open>simp add: cert_path_def\<close>)
qed

text \<open>
  A leaf signed by an authority of the chain, which is signed by a root of the bundle; the leaf serves
  a server, and only the root is trusted for that.
\<close>

definition path_pem :: "sample_h pem_api" where
  "path_pem = sample_pem
     \<lparr>X509_get_pubkey := Some,
      X509_verify := \<lambda>x pk. if x = SCert \<and> pk = Some SCA \<or> x = SCA \<and> pk = Some SRoot then 1 else 0,
      X509_verify_cert := \<lambda>ctx. if vc_cert ctx = Some SCert \<and> Some SCA \<in> set (vc_untrusted ctx)
        \<and> SRoot \<in> set (vc_store ctx) \<and> 10 \<le> vc_time ctx \<and> Some SCert \<in> set (vc_untrusted ctx) then 1 else 0\<rparr>"

lemma path_pem_documented:
  "verify_documented path_pem (\<lambda>x t. 10 \<le> t) (\<lambda>x p. x = SCert) (\<lambda>x t. x = SRoot)"
proof -
  have "cert_path path_pem (\<lambda>x t. 10 \<le> t) (\<lambda>x p. x = SCert) (\<lambda>x t. x = SRoot) ctx [SCert, SCA, SRoot]"
    if "X509_verify_cert path_pem ctx = 1" for ctx
    using that by (simp add: path_pem_def cert_path_def split: if_splits)
  then show ?thesis unfolding verify_documented_def by blast
qed

lemma path_pem_read [simp]: "PEM_read_bio_X509_AUX path_pem = PEM_read_bio_X509_AUX sample_pem"
  by (simp add: path_pem_def)

lemma path_pem_progress: "pem_progress path_pem"
  using sample_pem_progress by (simp add: pem_progress_def)

definition path_chain :: "x509cert list" where
  "path_chain = [encoded_cert sample_api SCert None, encoded_cert sample_api SCA None]"

definition path_opts :: verifier_options where
  "path_opts = \<lparr>opt_dns_name = ''Mumble User'', opt_time = 20\<rparr>"

lemma path_chain_accepted: "PEM_VerifyChain path_pem [SRoot] path_chain path_opts"
proof -
  have d: "d2i_X509 path_pem = d2i_X509 sample_api"
    by (simp add: path_pem_def sample_pem_def x509_api.defs)
  have n: "DNSNames (encoded_cert sample_api SCert None) = [''Mumble User'']"
    by (simp add: encoded_cert_def cert_of_fields DNSNames_def alt_strings_def StringFromASN1String_def)
  have h: "HostnameExprMatch ''Mumble User'' ''Mumble User''" by code_simp
  have c: "AsOpenSSLX509 path_pem (encoded_cert sample_api SCert None) = Some SCert"
    "AsOpenSSLX509 path_pem (encoded_cert sample_api SCA None) = Some SCA"
    unfolding AsOpenSSLX509_def d by (simp_all add: encoded_cert_def)
  have v: "X509_verify_cert path_pem \<lparr>vc_store = [SRoot], vc_cert = Some SCert, vc_untrusted = [Some SCert, Some SCA],
      vc_time = 20, vc_purpose = p, vc_trust = t\<rparr> = 1" for p t
    by (simp add: path_pem_def)
  show ?thesis
    by (simp add: PEM_VerifyChain_ctx path_chain_def path_opts_def VerifyHostname_iff n h c v)
qed

theorem PEM_VerifyChain_accepts_witness:
  "\<exists>leaf rest path. path_chain = leaf # rest \<and> AsOpenSSLX509 path_pem leaf = Some (hd path) \<and> last path = SRoot
     \<and> successively (\<lambda>x y. X509_verify path_pem x (X509_get_pubkey path_pem y) = 1) path \<and> hd path = SCert"
proof -
  have r: "pem_reads path_pem (content (der_ba (map Some ''R''))) [SRoot]"
    by (rule pem_reads.cert [where mem' = "[]"]) (simp_all add: pem_reads.stop)
  then have "AddPEM path_pem X509PEMVerifier_new (der_ba (map Some ''R'')) = Some (False, [SRoot])"
    by (simp add: AddPEM_def AddPEM_loop_reads X509PEMVerifier_new_def)
  from PEM_VerifyChain_accepts [OF path_pem_documented path_pem_progress this path_chain_accepted]
  obtain leaf rest roots path where p: "path_chain = leaf # rest"
    "pem_reads path_pem (content (der_ba (map Some ''R''))) roots" "AsOpenSSLX509 path_pem leaf = Some (hd path)"
    "last path \<in> set roots"
    "successively (\<lambda>x y. X509_verify path_pem x (X509_get_pubkey path_pem y) = 1) path"
    "opt_dns_name path_opts \<noteq> [] \<longrightarrow> hd path = SCert"
    by blast
  have "roots = [SRoot]" by (rule pem_reads_unique [OF p(2) r])
  then have "last path = SRoot" using p(4) by simp
  moreover have "hd path = SCert" using p(6) by (simp add: path_opts_def)
  ultimately show ?thesis using p(1,3,5) by blast
qed

subsection \<open>The roots of the unix verifier\<close>

text \<open>The constructor ends, and its roots are OpenSSL's defaults or what the bundle of Debian and Ubuntu
  holds up to the first thing in it that cannot be read.\<close>

lemma unix_roots:
  assumes "pem_progress api" "files_fit fs"
  shows "\<exists>store. X509VerifierPrivate_unix api fs system = Inr store
    \<and> (case system of
         Some defaults \<Rightarrow> store = defaults
       | None \<Rightarrow> pem_reads api (case fs ''/etc/ssl/certs/ca-certificates.crt'' of None \<Rightarrow> [] | Some bytes \<Rightarrow> bytes) store)"
proof (cases system)
  case None
  let ?f = "''/etc/ssl/certs/ca-certificates.crt''"
  have "\<forall>bytes. fs ?f = Some bytes \<longrightarrow> int (length bytes) \<le> INT_MAX" using assms(2) by (simp add: files_fit_def)
  from read_pem_bundle_whole [of fs ?f, OF this] obtain ba where ba: "read_pem_bundle fs ?f = Inr ba" "ba_wf ba"
    "content ba = (case fs ?f of None \<Rightarrow> [] | Some bytes \<Rightarrow> bytes)"
    by blast
  obtain xs where xs: "pem_reads api (content ba) xs" using pem_reads_ex [OF assms(1)] by blast
  have len: "int (length (content ba)) = Length ba" using ba(2) length_content by (auto simp: ba_wf_def Length_def)
  show ?thesis
  proof (cases "Length ba > 0")
    case True
    then have "X509VerifierPrivate_unix api fs system = Inr xs"
      using None ba(1) add_pem_reads [OF xs, of X509PEMVerifier_new]
      by (simp add: X509VerifierPrivate_unix_def bundles_def X509PEMVerifier_new_def)
    then show ?thesis using None xs ba(3) by simp
  next
    case False
    then have "content ba = []" using len by (cases "content ba") auto
    moreover have "PEM_read_bio_X509_AUX api [] = None"
      using assms(1) by (cases "PEM_read_bio_X509_AUX api []") (fastforce simp: pem_progress_def)+
    ultimately have "pem_reads api (content ba) []" by (simp add: pem_reads.stop)
    moreover have "X509VerifierPrivate_unix api fs system = Inr []"
      using None ba(1) False by (simp add: X509VerifierPrivate_unix_def bundles_def X509PEMVerifier_new_def)
    ultimately show ?thesis using None ba(3) by simp
  qed
qed (simp add: X509VerifierPrivate_unix_def X509PEMVerifier_new_def)

subsection \<open>The verifier is made once\<close>

text \<open>Calls one after the other, each with what the constructor would make at its time.\<close>

fun system_verifiers ::
    "(('v option \<Rightarrow> 'v option) \<Rightarrow> 'g \<times> 'v option \<Rightarrow> 'g \<times> 'v option) \<Rightarrow> 'v list \<Rightarrow> 'g \<times> 'v option \<Rightarrow>
       'v list res" where
  "system_verifiers uv_once [] st = Inr []"
| "system_verifiers uv_once (made # mades) st =
     bindR (SystemVerifier uv_once made st) (\<lambda>(v, st).
     bindR (system_verifiers uv_once mades st) (\<lambda>vs. Inr (v # vs)))"

lemma system_verifiers_fired:
  assumes "once_law uv_once fired" "fired g"
  shows "system_verifiers uv_once mades (g, Some v) = Inr (replicate (length mades) v)"
  using assms(2)
proof (induction mades)
  case (Cons made mades)
  then have "uv_once (InitializeSystemVerifier made) (g, Some v) = (g, Some v)"
    using assms(1) by (simp add: once_law_def)
  then show ?case using Cons by (simp add: SystemVerifier_def)
qed simp

text \<open>However often the system's verifier is asked for, it is the one made at the first call: roots that
  change on disk later are not seen.\<close>

theorem SystemVerifier_once:
  assumes "once_law uv_once fired" "\<not> fired g"
  shows "system_verifiers uv_once (made # mades) (g, None) = Inr (replicate (Suc (length mades)) made)"
proof -
  obtain g' where "uv_once (InitializeSystemVerifier made) (g, None) = (g', Some made)" "fired g'"
    using once_first [OF assms, where f = "InitializeSystemVerifier made"] by (metis InitializeSystemVerifier_def)
  then show ?thesis using system_verifiers_fired [OF assms(1)] by (simp add: SystemVerifier_def)
qed

theorem SystemVerifier_once_witness:
  "system_verifiers once_flag [[SCert], [SCA], []] (False, None) = Inr [[SCert], [SCert], [SCert]]"
  using SystemVerifier_once [of once_flag "\<lambda>b. b" False "[SCert]" "[[SCA], []]"]
  by (simp add: once_law_def once_flag_def numeral_eq_Suc)

end
