(* ===== verification/TLSConn.thy ===== *)
theory TLSConn
  imports UVBio Errors Verifiers
begin

section \<open>TLSConnection\<close>

text \<open>
  \<open>TLSConnection\<close> and \<open>TLSConnectionPrivate\<close> of \<open>src/TLSConnection.cpp\<close> and
  \<open>src/TLSConnection_p.cpp\<close>: a TLS client whose event loop runs in a thread of its own. The record
  \<open>tls_conn\<close> is the object with the libuv handles it owns; every method and callback is one
  definition over it.

  A user's handler is a function of what has been reported so far to the calls it makes on the
  connection, \<open>Write\<close> and \<open>Disconnect\<close>, which the loop's thread carries out before it goes on. The
  handler of the chain verification runs inside OpenSSL and may only disconnect. What the handlers
  have been told is the list \<open>c_log\<close>.

  OpenSSL is a parameter. One of its calls is a tree (\<open>ssl_prog\<close>): it reads and writes through the
  callbacks of the BIO, asks for the chain to be verified, and returns its result, what
  \<open>SSL_get_error\<close> says of it, the bytes it decrypted and its next state. libuv's outcomes are
  arguments of the callbacks. Closing a handle that is already closed fails an assertion of libuv:
  the fault \<open>HandleClosed\<close>.
\<close>

subsection \<open>Data\<close>

datatype tls_state =
    TLS_CONNECTION_STATE_INVALID
  | TLS_CONNECTION_STATE_PRE_CONNECT
  | TLS_CONNECTION_STATE_STARVED_SSL_CONNECT
  | TLS_CONNECTION_STATE_ESTABLISHED
  | TLS_CONNECTION_STATE_DISCONNECTED_ERROR
  | TLS_CONNECTION_STATE_DISCONNECTED_REMOTE
  | TLS_CONNECTION_STATE_DISCONNECTED_LOCAL

text \<open>The enumeration is ordered as its values are.\<close>

fun tls_state_num :: "tls_state \<Rightarrow> nat" where
  "tls_state_num TLS_CONNECTION_STATE_INVALID = 0"
| "tls_state_num TLS_CONNECTION_STATE_PRE_CONNECT = 1"
| "tls_state_num TLS_CONNECTION_STATE_STARVED_SSL_CONNECT = 2"
| "tls_state_num TLS_CONNECTION_STATE_ESTABLISHED = 3"
| "tls_state_num TLS_CONNECTION_STATE_DISCONNECTED_ERROR = 4"
| "tls_state_num TLS_CONNECTION_STATE_DISCONNECTED_REMOTE = 5"
| "tls_state_num TLS_CONNECTION_STATE_DISCONNECTED_LOCAL = 6"

lemma tls_state_num_inject: "tls_state_num s = tls_state_num t \<longleftrightarrow> s = t"
  by (cases s; cases t) simp_all

instantiation tls_state :: linorder
begin

definition less_eq_tls_state :: "tls_state \<Rightarrow> tls_state \<Rightarrow> bool" where
  "less_eq_tls_state s t \<longleftrightarrow> tls_state_num s \<le> tls_state_num t"

definition less_tls_state :: "tls_state \<Rightarrow> tls_state \<Rightarrow> bool" where
  "less_tls_state s t \<longleftrightarrow> tls_state_num s < tls_state_num t"

instance
  by standard (auto simp: less_eq_tls_state_def less_tls_state_def tls_state_num_inject)

end

text \<open>The three states after a shutdown.\<close>

definition disconnected :: "tls_state \<Rightarrow> bool" where
  "disconnected s \<longleftrightarrow> TLS_CONNECTION_STATE_DISCONNECTED_ERROR \<le> s"

datatype tls_log =
    LogVerify "x509cert list"
  | LogEstablished
  | LogRead "cell list"
  | LogError mumble_error
  | LogDisconnect bool

datatype tls_call = CallWrite bytearray | CallDisconnect

text \<open>
  OpenSSL's \<open>SSL_CTX\<close>, as far as the class sets it: the method, the verification flags, whether the
  certificate verification is handed to \<open>SSLVerifyCallback\<close> of this connection, and the certificates
  of the context's own store. A new one has no flag, no callback and an empty store.
\<close>

datatype ssl_method = TLSv1_client_method | SSLv23_client_method

datatype ssl_verify_flag = SSL_VERIFY_PEER | SSL_VERIFY_FAIL_IF_NO_PEER_CERT

record ssl_ctx =
  ctx_method :: ssl_method
  ctx_verify_mode :: "ssl_verify_flag set"
  ctx_cert_verify_callback :: bool
  ctx_cert_store :: "x509cert list"

definition X509_STORE_new :: "x509cert list" where
  "X509_STORE_new = []"

definition SSL_CTX_new :: "ssl_method \<Rightarrow> ssl_ctx" where
  "SSL_CTX_new meth = \<lparr>ctx_method = meth, ctx_verify_mode = {}, ctx_cert_verify_callback = False,
     ctx_cert_store = X509_STORE_new\<rparr>"

text \<open>
  The members of the class, and of its handles what libuv keeps: which of the three have been
  closed, whether the connect request and the two asynchronous wake-ups are outstanding, whether
  the socket is being read, and the bytes handed to \<open>uv_write\<close>. \<open>c_ctx\<close> is the context \<open>ctx_\<close> points
  to, which means something once there is an \<open>SSL\<close> made from it. \<open>c_recv\<close> and \<open>c_used\<close> are history: the
  bytes received and the bytes OpenSSL has read of them.
\<close>

record 's tls_conn =
  c_state :: tls_state
  c_thread_id :: nat
  c_bio :: bio
  c_ctx :: ssl_ctx
  c_ssl :: "'s option"
  c_wq :: "bytearray list"
  c_err :: mumble_error
  c_verify_handler :: "(tls_log list \<Rightarrow> x509cert list \<Rightarrow> bool \<times> bool) option"
  c_established_handler :: "(tls_log list \<Rightarrow> tls_call list) option"
  c_read_handler :: "(tls_log list \<Rightarrow> bytearray \<Rightarrow> tls_call list) option"
  c_error_handler :: bool
  c_disconnect_handler :: bool
  c_nodelay :: "bool option"
  c_tcpsock_closed :: bool
  c_wqasync_closed :: bool
  c_dcasync_closed :: bool
  c_connecting :: bool
  c_reading :: bool
  c_wq_signal :: bool
  c_dc_signal :: bool
  c_sent :: "cell list"
  c_recv :: "cell list"
  c_used :: "cell list"
  c_log :: "tls_log list"

text \<open>
  One call of OpenSSL. \<open>BioRead\<close> continues with the return value of the BIO's read callback and the
  bytes it stored, \<open>BioWrite\<close> with that of the write callback, \<open>VerifyChain\<close> with that of the
  verification callback for the chain the server sent.
\<close>

datatype ('s, 'h) ssl_prog =
    SSLReturn int ssl_error "cell list" 's
  | BioRead int "int \<Rightarrow> cell list \<Rightarrow> ('s, 'h) ssl_prog"
  | BioWrite "cell list" "int \<Rightarrow> ('s, 'h) ssl_prog"
  | SSLVerify "'h list" "int \<Rightarrow> ('s, 'h) ssl_prog"

record ('s, 'h, 'q) tls_env =
  SSL_new :: "ssl_ctx \<Rightarrow> 's"
  SSL_connect :: "'s \<Rightarrow> ('s, 'h) ssl_prog"
  SSL_read :: "'s \<Rightarrow> int \<Rightarrow> ('s, 'h) ssl_prog"
  SSL_write :: "'s \<Rightarrow> cell list \<Rightarrow> ('s, 'h) ssl_prog"
  SSL_error_num :: "ssl_error \<Rightarrow> int"
  BIO_retry_read :: "32 word"
  env_x509 :: "'h x509_api"
  env_default_verify :: "x509cert list \<Rightarrow> 'h list \<Rightarrow> int"
  env_crypto :: "'q crypto_err_api"
  env_crypto_queue :: 'q
  env_system_verify :: "x509cert list \<Rightarrow> verifier_options \<Rightarrow> bool"
  env_time :: int
  env_uv_strerror :: "uv_err \<Rightarrow> string"
  env_uv_last_error :: uv_err
  env_uv_write_ok :: bool
  UV_EOF :: int

subsection \<open>Shutting down\<close>

definition uv_close_all :: "'s tls_conn \<Rightarrow> 's tls_conn res" where
  "uv_close_all c =
     (if c_tcpsock_closed c then Inl HandleClosed
      else let c = c\<lparr>c_tcpsock_closed := True, c_reading := False\<rparr> in
      if c_wqasync_closed c then Inl HandleClosed
      else let c = c\<lparr>c_wqasync_closed := True\<rparr> in
      if c_dcasync_closed c then Inl HandleClosed
      else Inr (c\<lparr>c_dcasync_closed := True\<rparr>))"

definition Shutdown :: "tls_state \<Rightarrow> 's tls_conn \<Rightarrow> 's tls_conn res" where
  "Shutdown state c = uv_close_all (c\<lparr>c_state := state\<rparr>)"

definition ShutdownError :: "mumble_error \<Rightarrow> 's tls_conn \<Rightarrow> 's tls_conn res" where
  "ShutdownError err c = Shutdown TLS_CONNECTION_STATE_DISCONNECTED_ERROR (c\<lparr>c_err := err\<rparr>)"

definition ShutdownRemote :: "'s tls_conn \<Rightarrow> 's tls_conn res" where
  "ShutdownRemote c = Shutdown TLS_CONNECTION_STATE_DISCONNECTED_REMOTE c"

text \<open>\<open>uv_async_send\<close> has no effect on a closed handle.\<close>

definition Disconnect :: "nat \<Rightarrow> 's tls_conn \<Rightarrow> 's tls_conn res" where
  "Disconnect us c =
     (let it = c_thread_id c
      in if us = it then Shutdown TLS_CONNECTION_STATE_DISCONNECTED_LOCAL c
         else if it > 0 then Inr (if c_dcasync_closed c then c else c\<lparr>c_dc_signal := True\<rparr>)
         else Inr c)"

subsection \<open>The verification callback\<close>

text \<open>
  The loop over the chain: the certificates, or \<open>None\<close> when an encoding is empty. \<open>i2d_X509\<close> reports a
  failure as -1, which passes the test of its result: the array of that length has no buffer, and the
  certificate made from it is an empty one.
\<close>

fun SSLVerifyCallback_loop ::
    "'h x509_api \<Rightarrow> 'h list \<Rightarrow> x509cert list \<Rightarrow> x509cert list option res" where
  "SSLVerifyCallback_loop api [] verification_chain = Inr (Some verification_chain)"
| "SSLVerifyCallback_loop api (cert # chain) verification_chain =
     (let err = (if i2d_X509_fails api cert then -1 else int (length (i2d_X509 api cert)))
      in bindR (if err < 0 then Inr (ByteArray_len err) else der_array (i2d_X509 api cert)) (\<lambda>cert_der.
           if err = 0 then Inr None
           else bindR (FromRawDERData api cert_der ByteArray_null) (\<lambda>parsed_cert.
             SSLVerifyCallback_loop api chain (verification_chain @ [parsed_cert]))))"

definition SSLVerifyCallback ::
    "('s, 'h, 'q) tls_env \<Rightarrow> 'h list \<Rightarrow> 's tls_conn \<Rightarrow> (int \<times> 's tls_conn) res" where
  "SSLVerifyCallback env chain c =
     bindR (SSLVerifyCallback_loop (env_x509 env) chain []) (\<lambda>certs.
       case certs of
         None \<Rightarrow>
           bindR (ErrorFromLastCryptoError (env_crypto env) (env_crypto_queue env)) (\<lambda>(err, _).
           bindR (ShutdownError err c) (\<lambda>c. Inr (0, c)))
       | Some verification_vector \<Rightarrow>
           (case c_verify_handler c of
              Some handler \<Rightarrow>
                (let (ok, disconnect) = handler (c_log c) verification_vector;
                     c = c\<lparr>c_log := c_log c @ [LogVerify verification_vector]\<rparr>
                 in bindR (if disconnect then Disconnect (c_thread_id c) c else Inr c) (\<lambda>c.
                      Inr (if ok then 1 else 0, c)))
            | None \<Rightarrow>
                (let ok = env_system_verify env verification_vector
                            \<lparr>opt_dns_name = ''www.google.com'', opt_time = env_time env\<rparr>
                 in Inr (if ok then 1 else 0, c))))"

subsection \<open>Calls of OpenSSL\<close>

text \<open>
  How OpenSSL verifies the chain of the server: by the callback of the context of the connection, or,
  when none has been set, by its own verification against the store of the context.
\<close>

definition ssl_verify_cert_chain ::
    "('s, 'h, 'q) tls_env \<Rightarrow> 'h list \<Rightarrow> 's tls_conn \<Rightarrow> (int \<times> 's tls_conn) res" where
  "ssl_verify_cert_chain env chain c =
     (if ctx_cert_verify_callback (c_ctx c) then SSLVerifyCallback env chain c
      else Inr (env_default_verify env (ctx_cert_store (c_ctx c)) chain, c))"

text \<open>A call runs with the connection's BIO: the result, and the connection after it.\<close>

primrec run_ssl ::
    "('s, 'h) ssl_prog \<Rightarrow> ('s, 'h, 'q) tls_env \<Rightarrow> 's tls_conn \<Rightarrow>
       ((int \<times> ssl_error \<times> cell list) \<times> 's tls_conn) res" where
  "run_ssl (SSLReturn n err out s) env c = Inr ((n, err, out), c\<lparr>c_ssl := Some s\<rparr>)"
| "run_ssl (BioRead len k) env c =
     bindR (UVBio_Read (BIO_retry_read env) (c_bio c) (c_malloc len) len) (\<lambda>(n, buf, b).
       let got = take (nat n) (case buf of None \<Rightarrow> [] | Some xs \<Rightarrow> xs)
       in run_ssl (k n got) env (c\<lparr>c_bio := b, c_used := c_used c @ got\<rparr>))"
| "run_ssl (BioWrite bytes k) env c =
     bindR (UVBio_Write (env_uv_write_ok env \<and> \<not> c_tcpsock_closed c) (c_bio c) bytes
              (int (length bytes))) (\<lambda>(n, written).
       run_ssl (k n) env (c\<lparr>c_sent := c_sent c @ written\<rparr>))"
| "run_ssl (SSLVerify chain k) env c =
     bindR (ssl_verify_cert_chain env chain c) (\<lambda>(r, c). run_ssl (k r) env c)"

text \<open>The connection's \<open>SSL\<close>; using it before \<open>OnConnect\<close> made it dereferences a null pointer.\<close>

definition with_ssl ::
    "('s \<Rightarrow> ('s, 'h) ssl_prog) \<Rightarrow> ('s, 'h, 'q) tls_env \<Rightarrow> 's tls_conn \<Rightarrow>
       ((int \<times> ssl_error \<times> cell list) \<times> 's tls_conn) res" where
  "with_ssl call env c =
     (case c_ssl c of None \<Rightarrow> Inl OutOfBounds | Some s \<Rightarrow> run_ssl (call s) env c)"

definition Write ::
    "('s, 'h, 'q) tls_env \<Rightarrow> nat \<Rightarrow> bytearray \<Rightarrow> 's tls_conn \<Rightarrow> 's tls_conn res" where
  "Write env us buf c =
     (let it = c_thread_id c
      in if us = it
         then bindR (with_ssl (\<lambda>s. SSL_write env s (content buf)) env c) (\<lambda>((nread, SSLerr, _), c).
                if nread < 0 then ShutdownError (ErrorFromOpenSSLErrorCode (SSL_error_num env) SSLerr) c
                else if nread = 0 then ShutdownRemote c
                else Inr c)
         else if it > 0
         then bindR (ByteArray_copy buf) (\<lambda>copy.
                Inr (if c_wqasync_closed c then c\<lparr>c_wq := c_wq c @ [copy]\<rparr>
                     else c\<lparr>c_wq := c_wq c @ [copy], c_wq_signal := True\<rparr>))
         else Inr c)"

text \<open>The calls of a handler, in the loop's thread.\<close>

fun run_calls ::
    "('s, 'h, 'q) tls_env \<Rightarrow> tls_call list \<Rightarrow> 's tls_conn \<Rightarrow> 's tls_conn res" where
  "run_calls env [] c = Inr c"
| "run_calls env (CallWrite buf # calls) c =
     bindR (Write env (c_thread_id c) buf c) (\<lambda>c. run_calls env calls c)"
| "run_calls env (CallDisconnect # calls) c =
     bindR (Disconnect (c_thread_id c) c) (\<lambda>c. run_calls env calls c)"

subsection \<open>Connecting\<close>

definition TransitionToConnectionEstablishedState ::
    "('s, 'h, 'q) tls_env \<Rightarrow> 's tls_conn \<Rightarrow> 's tls_conn res" where
  "TransitionToConnectionEstablishedState env c =
     (let c = c\<lparr>c_state := TLS_CONNECTION_STATE_ESTABLISHED\<rparr>
      in case c_established_handler c of
           None \<Rightarrow> Inr c
         | Some handler \<Rightarrow>
             run_calls env (handler (c_log c)) (c\<lparr>c_log := c_log c @ [LogEstablished]\<rparr>))"

definition HandleStarvedConnectState ::
    "('s, 'h, 'q) tls_env \<Rightarrow> 's tls_conn \<Rightarrow> (bool \<times> 's tls_conn) res" where
  "HandleStarvedConnectState env c =
     bindR (with_ssl (SSL_connect env) env c) (\<lambda>((err, SSLerr, _), c).
       if err < 0
       then (if SSLerr \<noteq> SSL_ERROR_WANT_READ \<and> SSLerr \<noteq> SSL_ERROR_WANT_WRITE
             then bindR (ShutdownError (ErrorFromOpenSSLErrorCode (SSL_error_num env) SSLerr) c)
                    (\<lambda>c. Inr (False, c))
             else Inr (False, c))
       else if err = 0 then bindR (ShutdownRemote c) (\<lambda>c. Inr (False, c))
       else if err = 1
       then bindR (TransitionToConnectionEstablishedState env c) (\<lambda>c. Inr (True, c))
       else NotReached)"

text \<open>
  \<open>OnConnect\<close>: the outcome of the request and that of \<open>uv_read_start\<close>. \<open>SSL_new\<close> takes over the flags of
  the context as they are when it is called; the callback and the store are read from the context
  later, when a chain is verified.
\<close>

definition OnConnect ::
    "('s, 'h, 'q) tls_env \<Rightarrow> int \<Rightarrow> bool \<Rightarrow> 's tls_conn \<Rightarrow> 's tls_conn res" where
  "OnConnect env status read_ok c =
     assertR (c_state c = TLS_CONNECTION_STATE_PRE_CONNECT)
       (let c = c\<lparr>c_connecting := False\<rparr> in
        if status = -1
        then ShutdownError (ErrorFromLastUVError (env_uv_strerror env) (\<lambda>_. env_uv_last_error env) ()) c
        else if \<not> read_ok
        then ShutdownError (ErrorFromLastUVError (env_uv_strerror env) (\<lambda>_. env_uv_last_error env) ()) c
        else
          (let c = c\<lparr>c_reading := True\<rparr>;
               ctx = SSL_CTX_new TLSv1_client_method;
               ctx = ctx\<lparr>ctx_verify_mode := {SSL_VERIFY_PEER, SSL_VERIFY_FAIL_IF_NO_PEER_CERT}\<rparr>;
               ctx = ctx\<lparr>ctx_cert_verify_callback := True\<rparr>;
               c = c\<lparr>c_ctx := ctx, c_ssl := Some (SSL_new env ctx)\<rparr>;
               c = c\<lparr>c_bio := snd (UVBio_Create (c_bio c))\<rparr>;
               c = c\<lparr>c_bio := (c_bio c)\<lparr>bio_ptr := Some UVBioState_new\<rparr>\<rparr>;
               c = c\<lparr>c_ctx := (c_ctx c)\<lparr>ctx_cert_store := X509_STORE_new\<rparr>\<rparr>;
               c = c\<lparr>c_state := TLS_CONNECTION_STATE_STARVED_SSL_CONNECT\<rparr>
           in bindR (HandleStarvedConnectState env c) (\<lambda>(_, c). Inr c)))"

record tls_options =
  tcp_no_delay :: bool

text \<open>\<open>Connect\<close>, with the outcomes of \<open>uv_tcp_init\<close>, \<open>uv_tcp_connect\<close> and \<open>uv_thread_create\<close>. The handles it
  initialises are open again.\<close>

definition Connect ::
    "('s, 'h, 'q) tls_env \<Rightarrow> bool \<Rightarrow> bool \<Rightarrow> bool \<Rightarrow> tls_options option \<Rightarrow> 's tls_conn \<Rightarrow>
       mumble_error \<times> 's tls_conn" where
  "Connect env init_ok connect_ok thread_ok opts c =
     (let last = ErrorFromLastUVError (env_uv_strerror env) (\<lambda>_. env_uv_last_error env) () in
      if \<not> init_ok then (last, c)
      else
        (let c = c\<lparr>c_tcpsock_closed := False, c_reading := False\<rparr>;
             c = (case opts of None \<Rightarrow> c | Some opt \<Rightarrow> c\<lparr>c_nodelay := Some (tcp_no_delay opt)\<rparr>)
         in if \<not> connect_ok then (last, c)
            else
              (let c = c\<lparr>c_connecting := True\<rparr>;
                   c = c\<lparr>c_wqasync_closed := False, c_wq_signal := False\<rparr>;
                   c = c\<lparr>c_dcasync_closed := False, c_dc_signal := False\<rparr>;
                   c = c\<lparr>c_state := TLS_CONNECTION_STATE_PRE_CONNECT\<rparr>
               in if \<not> thread_ok
                  then (ErrorFromDescription ''TLSConnection'' 0 ''unable to create connection thread'', c)
                  else (NoError, c))))"

subsection \<open>Reading\<close>

definition AllocCallback :: "nat \<Rightarrow> cell list" where
  "AllocCallback suggested_size = replicate suggested_size (Some CHR 0x00)"

text \<open>
  The loop of \<open>OnRead\<close>. \<open>SSL_read\<close> stores its bytes in \<open>processed\<close>, whose capacity it was given. The
  loop need not end; \<open>None\<close> is that it does not.
\<close>

partial_function (option) OnRead_loop ::
    "('s, 'h, 'q) tls_env \<Rightarrow> bytearray \<Rightarrow> 's tls_conn \<Rightarrow> 's tls_conn res option" where
  "OnRead_loop env processed c =
     (case with_ssl (\<lambda>s. SSL_read env s (Capacity processed)) env c of
        Inl e \<Rightarrow> Some (Inl e)
      | Inr ((nread, SSLerr, out), c) \<Rightarrow>
          if nread = -1
          then (if SSLerr = SSL_ERROR_WANT_READ \<or> SSLerr = SSL_ERROR_WANT_WRITE then Some (Inr c)
                else Some (ShutdownError (ErrorFromOpenSSLErrorCode (SSL_error_num env) SSLerr) c))
          else if nread = 0 then Some (ShutdownRemote c)
          else
            (case bindR (Data_write processed 0 out) (\<lambda>p. Truncate p nread) of
               Inl e \<Rightarrow> Some (Inl e)
             | Inr processed \<Rightarrow>
                 (case (case c_read_handler c of
                          None \<Rightarrow> Inr c
                        | Some handler \<Rightarrow>
                            run_calls env (handler (c_log c) processed)
                              (c\<lparr>c_log := c_log c @ [LogRead (content processed)]\<rparr>)) of
                    Inl e \<Rightarrow> Some (Inl e)
                  | Inr c \<Rightarrow> OnRead_loop env processed c)))"

text \<open>\<open>OnRead\<close> for \<open>nread\<close> and a buffer of \<open>buf_len\<close> bytes.\<close>

definition OnRead ::
    "('s, 'h, 'q) tls_env \<Rightarrow> int \<Rightarrow> block \<Rightarrow> int \<Rightarrow> 's tls_conn \<Rightarrow> 's tls_conn res option" where
  "OnRead env nread buf buf_len c =
     (if c_state c \<noteq> TLS_CONNECTION_STATE_STARVED_SSL_CONNECT
         \<and> c_state c \<noteq> TLS_CONNECTION_STATE_ESTABLISHED
      then Some (Inr c)
      else if nread = -1
      then (let last = env_uv_last_error env
            in if uv_code last = UV_EOF env then Some (ShutdownRemote c)
               else Some (ShutdownError (ErrorFromUVError (env_uv_strerror env) last) c))
      else if nread = 0 then Some (ShutdownRemote c)
      else
        (case ByteArray_buf buf nread buf_len of
           Inl e \<Rightarrow> Some (Inl e)
         | Inr b \<Rightarrow>
             (case bio_ptr (c_bio c) of
                None \<Rightarrow> Some (Inl OutOfBounds)
              | Some biostate \<Rightarrow>
                  let c = c\<lparr>c_bio := (c_bio c)\<lparr>bio_ptr := Some (PutNewBuffer b biostate)\<rparr>,
                            c_recv := c_recv c @ content b\<rparr>
                  in case (if c_state c = TLS_CONNECTION_STATE_STARVED_SSL_CONNECT
                           then HandleStarvedConnectState env c else Inr (True, c)) of
                       Inl e \<Rightarrow> Some (Inl e)
                     | Inr (go_on, c) \<Rightarrow>
                         if \<not> go_on then Some (Inr c)
                         else if c_state c = TLS_CONNECTION_STATE_ESTABLISHED
                         then OnRead_loop env (ByteArray_len nread) c
                         else Some (Inr c))))"

subsection \<open>The wake-ups\<close>

text \<open>The loop of \<open>OnDrainWriteQueue\<close>, in the loop's thread: writes the front, then removes it.\<close>

fun OnDrainWriteQueue_loop ::
    "('s, 'h, 'q) tls_env \<Rightarrow> bytearray list \<Rightarrow> 's tls_conn \<Rightarrow> 's tls_conn res" where
  "OnDrainWriteQueue_loop env [] c = Inr c"
| "OnDrainWriteQueue_loop env (buf # wq) c =
     bindR (Write env (c_thread_id c) buf c) (\<lambda>c.
       OnDrainWriteQueue_loop env wq (c\<lparr>c_wq := tl (c_wq c)\<rparr>))"

definition OnDrainWriteQueue ::
    "('s, 'h, 'q) tls_env \<Rightarrow> 's tls_conn \<Rightarrow> 's tls_conn res" where
  "OnDrainWriteQueue env c =
     (let c = c\<lparr>c_wq_signal := False\<rparr>
      in if c_state c = TLS_CONNECTION_STATE_ESTABLISHED
         then OnDrainWriteQueue_loop env (c_wq c) c else Inr c)"

definition OnDisconnectRequest :: "'s tls_conn \<Rightarrow> 's tls_conn res" where
  "OnDisconnectRequest c =
     Shutdown TLS_CONNECTION_STATE_DISCONNECTED_LOCAL (c\<lparr>c_dc_signal := False\<rparr>)"

subsection \<open>The thread\<close>

text \<open>\<open>TLSConnectionThread\<close> before and after \<open>uv_run\<close>, whose outcome is \<open>run_ok\<close>.\<close>

definition TLSConnectionThread_start :: "nat \<Rightarrow> 's tls_conn \<Rightarrow> 's tls_conn" where
  "TLSConnectionThread_start self c = c\<lparr>c_thread_id := self\<rparr>"

definition TLSConnectionThread_end ::
    "('s, 'h, 'q) tls_env \<Rightarrow> bool \<Rightarrow> 's tls_conn \<Rightarrow> 's tls_conn res" where
  "TLSConnectionThread_end env run_ok c =
     (let c = (if \<not> run_ok
               then c\<lparr>c_state := TLS_CONNECTION_STATE_DISCONNECTED_ERROR,
                      c_err := ErrorFromLastUVError (env_uv_strerror env)
                                 (\<lambda>_. env_uv_last_error env) ()\<rparr>
               else c);
          c = c\<lparr>c_thread_id := 0\<rparr>;
          c = c\<lparr>c_wq := []\<rparr>
      in case c_state c of
           TLS_CONNECTION_STATE_DISCONNECTED_LOCAL \<Rightarrow>
             Inr (if c_disconnect_handler c then c\<lparr>c_log := c_log c @ [LogDisconnect True]\<rparr> else c)
         | TLS_CONNECTION_STATE_DISCONNECTED_REMOTE \<Rightarrow>
             Inr (if c_disconnect_handler c then c\<lparr>c_log := c_log c @ [LogDisconnect False]\<rparr> else c)
         | TLS_CONNECTION_STATE_DISCONNECTED_ERROR \<Rightarrow>
             Inr (if c_error_handler c then c\<lparr>c_log := c_log c @ [LogError (c_err c)]\<rparr> else c)
         | _ \<Rightarrow> NotReached)"

subsection \<open>The public class\<close>

text \<open>A new object; the members no constructor initialises have the values of \<open>garbage\<close>.\<close>

definition TLSConnection_new :: "'s tls_conn \<Rightarrow> 's tls_conn" where
  "TLSConnection_new garbage = garbage\<lparr>c_thread_id := 0, c_ssl := None, c_wq := [], c_err := Error_new,
     c_verify_handler := None, c_established_handler := None, c_read_handler := None,
     c_error_handler := False, c_disconnect_handler := False, c_connecting := False,
     c_reading := False, c_sent := [], c_recv := [], c_used := [], c_log := []\<rparr>"

definition SetChainVerifyHandler ::
    "(tls_log list \<Rightarrow> x509cert list \<Rightarrow> bool \<times> bool) \<Rightarrow> 's tls_conn \<Rightarrow> 's tls_conn" where
  "SetChainVerifyHandler fn c = c\<lparr>c_verify_handler := Some fn\<rparr>"

definition SetEstablishedHandler ::
    "(tls_log list \<Rightarrow> tls_call list) \<Rightarrow> 's tls_conn \<Rightarrow> 's tls_conn" where
  "SetEstablishedHandler fn c = c\<lparr>c_established_handler := Some fn\<rparr>"

definition SetReadHandler ::
    "(tls_log list \<Rightarrow> bytearray \<Rightarrow> tls_call list) \<Rightarrow> 's tls_conn \<Rightarrow> 's tls_conn" where
  "SetReadHandler fn c = c\<lparr>c_read_handler := Some fn\<rparr>"

definition SetErrorHandler :: "'s tls_conn \<Rightarrow> 's tls_conn" where
  "SetErrorHandler c = c\<lparr>c_error_handler := True\<rparr>"

definition SetDisconnectHandler :: "'s tls_conn \<Rightarrow> 's tls_conn" where
  "SetDisconnectHandler c = c\<lparr>c_disconnect_handler := True\<rparr>"

subsection \<open>The event loop\<close>

text \<open>
  What can happen while the connection's thread runs, each with the guard libuv documents for it:
  a callback is not called after its handle has been closed, except that of an outstanding connect
  request, which is cancelled with the status -1; \<open>uv_run\<close> returns without an error only when all
  handles are closed and no request is outstanding. Other threads call \<open>Write\<close> and \<open>Disconnect\<close> at
  any time.
\<close>

datatype tls_event =
    EvConnect int bool
  | EvRead int block int
  | EvDrain
  | EvDisconnectRequest
  | EvWrite nat bytearray
  | EvDisconnect nat

definition all_closed :: "'s tls_conn \<Rightarrow> bool" where
  "all_closed c \<longleftrightarrow> c_tcpsock_closed c \<and> c_wqasync_closed c \<and> c_dcasync_closed c"

fun tls_enabled :: "tls_event \<Rightarrow> 's tls_conn \<Rightarrow> bool" where
  "tls_enabled (EvConnect status read_ok) c \<longleftrightarrow>
     c_connecting c \<and> (status = 0 \<or> status = -1) \<and> (c_tcpsock_closed c \<longrightarrow> status = -1)"
| "tls_enabled (EvRead nread buf buf_len) c \<longleftrightarrow>
     c_reading c \<and> \<not> c_tcpsock_closed c \<and> -1 \<le> nread \<and> nread \<le> buf_len
     \<and> (\<exists>bytes. buf = Some bytes \<and> int (length bytes) = buf_len) \<and> 1 \<le> buf_len \<and> buf_len \<le> INT_MAX"
| "tls_enabled EvDrain c \<longleftrightarrow> c_wq_signal c \<and> \<not> c_wqasync_closed c"
| "tls_enabled EvDisconnectRequest c \<longleftrightarrow> c_dc_signal c \<and> \<not> c_dcasync_closed c"
| "tls_enabled (EvWrite us buf) c \<longleftrightarrow> us \<noteq> c_thread_id c \<and> ba_wf buf"
| "tls_enabled (EvDisconnect us) c \<longleftrightarrow> us \<noteq> c_thread_id c"

fun tls_handle ::
    "('s, 'h, 'q) tls_env \<Rightarrow> tls_event \<Rightarrow> 's tls_conn \<Rightarrow> 's tls_conn res option" where
  "tls_handle env (EvConnect status read_ok) c = Some (OnConnect env status read_ok c)"
| "tls_handle env (EvRead nread buf buf_len) c = OnRead env nread buf buf_len c"
| "tls_handle env EvDrain c = Some (OnDrainWriteQueue env c)"
| "tls_handle env EvDisconnectRequest c = Some (OnDisconnectRequest c)"
| "tls_handle env (EvWrite us buf) c = Some (Write env us buf c)"
| "tls_handle env (EvDisconnect us) c = Some (Disconnect us c)"

text \<open>A step, with an environment of its own: libuv's and OpenSSL's answers may differ each time.\<close>

inductive tls_step ::
    "(('s, 'h, 'q) tls_env \<Rightarrow> bool) \<Rightarrow> 's tls_conn \<Rightarrow> tls_event \<Rightarrow> 's tls_conn \<Rightarrow> bool"
  for ok_env where
  step: "\<lbrakk>ok_env env; tls_enabled ev c; tls_handle env ev c = Some (Inr c')\<rbrakk> \<Longrightarrow>
    tls_step ok_env c ev c'"

inductive_cases tls_stepE: "tls_step ok_env c ev c'"

text \<open>The states of a running connection: \<open>Connect\<close> succeeded on a new object, the thread started.\<close>

inductive tls_reachable ::
    "(('s, 'h, 'q) tls_env \<Rightarrow> bool) \<Rightarrow> 's tls_conn \<Rightarrow> 's tls_conn \<Rightarrow> bool"
  for ok_env c0 where
  start: "\<lbrakk>ok_env env; 0 < self; Connect env True True True opts c0 = (e, c)\<rbrakk> \<Longrightarrow>
    tls_reachable ok_env c0 (TLSConnectionThread_start self c)"
| step: "\<lbrakk>tls_reachable ok_env c0 c; tls_step ok_env c ev c'\<rbrakk> \<Longrightarrow> tls_reachable ok_env c0 c'"

end
