(* ===== verification/TLSInv.thy ===== *)
theory TLSInv
  imports TLSConn
begin

section \<open>Invariants of the TLS connection\<close>

text \<open>
  What the sources rely on of OpenSSL (\<open>ssl_documented\<close>), what one call of OpenSSL leaves as it was
  (\<open>ssl_frame\<close>), and how the operations that shut down or write change a connection (\<open>evolves\<close>): they
  return, with the handles closed at most once, or fail with \<open>HandleClosed\<close>.
\<close>

subsection \<open>What OpenSSL documents\<close>

text \<open>
  All paths through a call satisfy: reads ask for a non-negative number of bytes, the encodings of
  the certificates of a chain, where they can be encoded, are not empty and of lengths an \<open>int\<close> can
  count, and what is returned satisfies \<open>Q\<close>.
\<close>

definition encodable :: "'h x509_api \<Rightarrow> 'h \<Rightarrow> bool" where
  "encodable api x \<longleftrightarrow>
     i2d_X509_fails api x \<or> i2d_X509 api x \<noteq> [] \<and> int (length (i2d_X509 api x)) \<le> INT_MAX"

text \<open>The certificate the verification callback makes of one that OpenSSL shows it.\<close>

definition chain_cert :: "'h x509_api \<Rightarrow> 'h \<Rightarrow> x509cert" where
  "chain_cert api x =
     cert_of api (if i2d_X509_fails api x then ByteArray_null else der_ba (i2d_X509 api x)) ByteArray_null"

primrec prog_all ::
    "'h x509_api \<Rightarrow> (int \<Rightarrow> cell list \<Rightarrow> bool) \<Rightarrow> ('s, 'h) ssl_prog \<Rightarrow> bool" where
  "prog_all api Q (SSLReturn n e out s) \<longleftrightarrow> Q n out"
| "prog_all api Q (BioRead len k) \<longleftrightarrow> 0 \<le> len \<and> (\<forall>n got. prog_all api Q (k n got))"
| "prog_all api Q (BioWrite bytes k) \<longleftrightarrow> (\<forall>n. prog_all api Q (k n))"
| "prog_all api Q (SSLVerify chain k) \<longleftrightarrow>
     (\<forall>x \<in> set chain. encodable api x)
     \<and> (\<forall>r. prog_all api Q (k r))"

definition ssl_documented :: "('s, 'h, 'q) tls_env \<Rightarrow> bool" where
  "ssl_documented env \<longleftrightarrow>
     (\<forall>s. prog_all (env_x509 env) (\<lambda>n out. n \<le> 1) (SSL_connect env s))
     \<and> (\<forall>s bytes. prog_all (env_x509 env) (\<lambda>n out. True) (SSL_write env s bytes))
     \<and> (\<forall>s len. 0 \<le> len \<longrightarrow> prog_all (env_x509 env)
           (\<lambda>n out. -1 \<le> n \<and> n \<le> len \<and> (0 < n \<longrightarrow> int (length out) = n)) (SSL_read env s len))"

text \<open>The handler of the chain verification does not disconnect.\<close>

definition quiet :: "'s tls_conn \<Rightarrow> bool" where
  "quiet c \<longleftrightarrow> (\<forall>h log certs. c_verify_handler c = Some h \<longrightarrow> \<not> snd (h log certs))"

subsection \<open>The frame of an OpenSSL call\<close>

text \<open>What a user of the connection sees of the log: all but the verifications.\<close>

definition visible :: "tls_log list \<Rightarrow> tls_log list" where
  "visible log = filter (\<lambda>e. \<forall>certs. e \<noteq> LogVerify certs) log"

lemma visible_simps [simp]:
  "visible [] = []"
  "visible (xs @ ys) = visible xs @ visible ys"
  "visible [LogVerify certs] = []"
  "visible [LogEstablished] = [LogEstablished]"
  "visible [LogRead b] = [LogRead b]"
  "visible [LogError e] = [LogError e]"
  "visible [LogDisconnect l] = [LogDisconnect l]"
  by (simp_all add: visible_def)

text \<open>The bytes received are those OpenSSL has read and those that wait in the BIO, in order.\<close>

definition chan_ok :: "'s tls_conn \<Rightarrow> bool" where
  "chan_ok c \<longleftrightarrow> (\<exists>st. bio_ptr (c_bio c) = Some st \<and> uvbio_wf st \<and> c_recv c = c_used c @ pending st)"

definition ssl_frame :: "'s tls_conn \<Rightarrow> 's tls_conn \<Rightarrow> bool" where
  "ssl_frame c c' \<longleftrightarrow> (\<exists>s b sent used vs. visible vs = []
     \<and> c' = c\<lparr>c_bio := b, c_ssl := s, c_sent := sent, c_used := used, c_log := c_log c @ vs\<rparr>)"

lemma ssl_frame_trans: "ssl_frame a b \<Longrightarrow> ssl_frame b c \<Longrightarrow> ssl_frame a c"
proof -
  assume "ssl_frame a b" "ssl_frame b c"
  then obtain s b1 sent used vs s' b' sent' used' vs' where v: "visible vs = []" "visible vs' = []"
    and ab: "b = a\<lparr>c_bio := b1, c_ssl := s, c_sent := sent, c_used := used, c_log := c_log a @ vs\<rparr>"
    and bc: "c = b\<lparr>c_bio := b', c_ssl := s', c_sent := sent', c_used := used', c_log := c_log b @ vs'\<rparr>"
    unfolding ssl_frame_def by metis
  have "c = a\<lparr>c_bio := b', c_ssl := s', c_sent := sent', c_used := used', c_log := c_log a @ (vs @ vs')\<rparr>"
    using ab bc by simp
  moreover have "visible (vs @ vs') = []" using v by simp
  ultimately show ?thesis unfolding ssl_frame_def by blast
qed

lemma ssl_frameI:
  "visible vs = [] \<Longrightarrow>
   ssl_frame c (c\<lparr>c_bio := b, c_ssl := s, c_sent := sent, c_used := used, c_log := c_log c @ vs\<rparr>)"
  unfolding ssl_frame_def by blast

lemma ssl_frame_quiet: "ssl_frame c c' \<Longrightarrow> quiet c' = quiet c"
  by (auto simp: ssl_frame_def quiet_def)

lemma SSLVerifyCallback_loop_certs:
  assumes "\<forall>x \<in> set chain. encodable api x"
  shows "SSLVerifyCallback_loop api chain acc = Inr (Some (acc @ map (chain_cert api) chain))"
  using assms
proof (induction chain arbitrary: acc)
  case (Cons x chain)
  show ?case
  proof (cases "i2d_X509_fails api x")
    case True
    have "FromRawDERData api (ByteArray_len (-1)) ByteArray_null = Inr (cert_of api ByteArray_null ByteArray_null)"
      using FromRawDERData_wf [of ByteArray_null ByteArray_null api]
      by (simp add: FromRawDERData_def ByteArray_assign_def ByteArray_copy_def ByteArray_len_def ByteArray_null_def
          c_malloc_def cert_of_def)
    then show ?thesis using Cons True by (simp add: chain_cert_def)
  next
    case False
    then have "i2d_X509 api x \<noteq> []" "int (length (i2d_X509 api x)) \<le> INT_MAX"
      using Cons.prems by (simp_all add: encodable_def)
    moreover from this have "der_array (i2d_X509 api x) = Inr (der_ba (i2d_X509 api x))" "ba_wf (der_ba (i2d_X509 api x))"
      using der_array_eq [of "i2d_X509 api x"] der_ba_simps(4) [of "i2d_X509 api x"] by (simp_all add: der_ba_def)
    ultimately show ?thesis using Cons False by (simp add: FromRawDERData_wf chain_cert_def)
  qed
qed simp

lemma SSLVerifyCallback_quiet:
  assumes "quiet c"
    and "\<forall>x \<in> set chain. encodable (env_x509 env) x"
  shows "\<exists>r vs. SSLVerifyCallback env chain c = Inr (r, c\<lparr>c_log := c_log c @ vs\<rparr>) \<and> visible vs = []"
proof -
  obtain certs where certs: "SSLVerifyCallback_loop (env_x509 env) chain [] = Inr (Some certs)"
    using SSLVerifyCallback_loop_certs [OF assms(2)] by blast
  show ?thesis
  proof (cases "c_verify_handler c")
    case None
    then have "\<exists>r. SSLVerifyCallback env chain c = Inr (r, c\<lparr>c_log := c_log c @ []\<rparr>)"
      using certs by (simp add: SSLVerifyCallback_def Let_def)
    then show ?thesis using visible_simps(1) by blast
  next
    case (Some h)
    obtain ok d where h: "h (c_log c) certs = (ok, d)" by (cases "h (c_log c) certs")
    then have "\<not> d" using assms(1) Some by (metis quiet_def snd_conv)
    then show ?thesis
      using certs Some h by (intro exI [of _ "if ok then 1 else 0"] exI [of _ "[LogVerify certs]"])
        (simp add: SSLVerifyCallback_def)
  qed
qed

lemma ssl_verify_cert_chain_quiet:
  assumes "quiet c" "\<forall>x \<in> set chain. encodable (env_x509 env) x"
  shows "\<exists>r vs. ssl_verify_cert_chain env chain c = Inr (r, c\<lparr>c_log := c_log c @ vs\<rparr>) \<and> visible vs = []"
proof (cases "ctx_cert_verify_callback (c_ctx c)")
  case True
  then show ?thesis using SSLVerifyCallback_quiet [OF assms] by (simp add: ssl_verify_cert_chain_def)
next
  case False
  then show ?thesis by (intro exI [of _ "[]"] exI) (simp add: ssl_verify_cert_chain_def)
qed

lemma bio_read_spec:
  assumes "bio_ptr b = Some st" "uvbio_wf st" "0 \<le> len"
  shows "\<exists>n buf b' st'. UVBio_Read retry_read b (c_malloc len) len = Inr (n, buf, b')
    \<and> bio_ptr b' = Some st' \<and> uvbio_wf st'
    \<and> pending st = take (nat n) (case buf of None \<Rightarrow> [] | Some xs \<Rightarrow> xs) @ pending st'"
proof (cases "bufs st")
  case Nil
  then show ?thesis using assms Read_empty [OF assms(1) Nil] by (auto simp: pending_def)
next
  case (Cons ba rest)
  have wf: "ba_wf ba" "0 \<le> ba_len ba" "int (length (content ba)) = ba_len ba"
    using assms(2) Cons length_content by (auto simp: uvbio_wf_def ba_wf_def)
  let ?n = "min len (ba_len ba)"
  have m: "c_malloc len = Some (replicate (nat len) None)" using assms(3) by simp
  obtain st' where "UVBio_Read retry_read b (c_malloc len) len = Inr (?n, Some (take (nat ?n) (content ba)
        @ drop (nat ?n) (replicate (nat len) None)), b\<lparr>bio_ptr := Some st'\<rparr>)"
    "uvbio_wf st'" "pending st = take (nat ?n) (content ba) @ pending st'"
    using Read_Cons [OF assms(1,2) Cons assms(3), of "replicate (nat len) None" retry_read] assms(3)
    unfolding m by auto
  moreover have "length (take (nat ?n) (content ba)) = nat ?n" using wf assms(3) by auto
  ultimately show ?thesis
    by (intro exI [of _ ?n] exI [of _ "b\<lparr>bio_ptr := Some st'\<rparr>"] exI [of _ st'] exI) auto
qed

definition ssl_ok ::
    "(int \<Rightarrow> cell list \<Rightarrow> bool) \<Rightarrow> ('s, 'h, 'q) tls_env \<Rightarrow> ('s, 'h) ssl_prog \<Rightarrow> 's tls_conn \<Rightarrow> bool" where
  "ssl_ok Q env p c \<longleftrightarrow> (\<exists>n err out c'. run_ssl p env c = Inr ((n, err, out), c') \<and> Q n out \<and> ssl_frame c c'
     \<and> chan_ok c' \<and> c_ssl c' \<noteq> None)"

text \<open>One call of the BIO or of the verification callback, and the program that goes on from it.\<close>

lemma ssl_ok_step:
  assumes "run_ssl p env c = run_ssl q env c1" "ssl_frame c c1" "quiet c" "chan_ok c1"
    and "quiet c1 \<Longrightarrow> chan_ok c1 \<Longrightarrow> ssl_ok Q env q c1"
  shows "ssl_ok Q env p c"
  using assms(5) [OF assms(3) [folded ssl_frame_quiet [OF assms(2)]] assms(4)] ssl_frame_trans [OF assms(2)]
  unfolding ssl_ok_def assms(1) by blast

lemma run_BioRead:
  assumes "0 \<le> len" "chan_ok c"
  shows "\<exists>n got c1. run_ssl (BioRead len k) env c = run_ssl (k n got) env c1 \<and> ssl_frame c c1 \<and> chan_ok c1"
proof -
  obtain st where st: "bio_ptr (c_bio c) = Some st" "uvbio_wf st" "c_recv c = c_used c @ pending st"
    using assms(2) by (auto simp: chan_ok_def)
  obtain n buf b st' where r: "UVBio_Read (BIO_retry_read env) (c_bio c) (c_malloc len) len = Inr (n, buf, b)"
    "bio_ptr b = Some st'" "uvbio_wf st'"
    "pending st = take (nat n) (case buf of None \<Rightarrow> [] | Some xs \<Rightarrow> xs) @ pending st'"
    using bio_read_spec [OF st(1,2) assms(1)] by blast
  define got where "got = take (nat n) (case buf of None \<Rightarrow> [] | Some xs \<Rightarrow> xs)"
  let ?c = "c\<lparr>c_bio := b, c_used := c_used c @ got\<rparr>"
  have "run_ssl (BioRead len k) env c = run_ssl (k n got) env ?c" using r(1) by (simp add: got_def Let_def)
  moreover have "ssl_frame c ?c"
    using ssl_frameI [where vs = "[]" and c = c
        and b = "b" and s = "c_ssl c" and sent = "c_sent c" and used = "c_used c @ got"] by simp
  moreover have "chan_ok ?c" using r st by (simp add: chan_ok_def got_def)
  ultimately show ?thesis by blast
qed

lemma run_BioWrite:
  assumes "chan_ok c"
  shows "\<exists>n c1. run_ssl (BioWrite bytes k) env c = run_ssl (k n) env c1 \<and> ssl_frame c c1 \<and> chan_ok c1"
proof -
  obtain st where st: "bio_ptr (c_bio c) = Some st" using assms by (auto simp: chan_ok_def)
  obtain n written where w: "UVBio_Write (env_uv_write_ok env \<and> \<not> c_tcpsock_closed c) (c_bio c) bytes
      (int (length bytes)) = Inr (n, written)"
    using st by (cases "env_uv_write_ok env \<and> \<not> c_tcpsock_closed c") (auto simp: UVBio_Write_def)
  let ?c = "c\<lparr>c_sent := c_sent c @ written\<rparr>"
  have "run_ssl (BioWrite bytes k) env c = run_ssl (k n) env ?c" using w by simp
  moreover have "ssl_frame c ?c"
    using ssl_frameI [where vs = "[]" and c = c
        and b = "c_bio c" and s = "c_ssl c" and sent = "c_sent c @ written" and used = "c_used c"] by simp
  moreover have "chan_ok ?c" using assms by (simp add: chan_ok_def)
  ultimately show ?thesis by blast
qed

lemma run_SSLVerify:
  assumes "quiet c" "chan_ok c" "prog_all (env_x509 env) Q (SSLVerify chain k)"
  shows "\<exists>r c1. run_ssl (SSLVerify chain k) env c = run_ssl (k r) env c1 \<and> ssl_frame c c1 \<and> chan_ok c1"
proof -
  obtain r vs where v: "ssl_verify_cert_chain env chain c = Inr (r, c\<lparr>c_log := c_log c @ vs\<rparr>)" "visible vs = []"
    using ssl_verify_cert_chain_quiet [OF assms(1) assms(3) [unfolded prog_all.simps, THEN conjunct1]] by blast
  let ?c = "c\<lparr>c_log := c_log c @ vs\<rparr>"
  have "run_ssl (SSLVerify chain k) env c = run_ssl (k r) env ?c" using v(1) by simp
  moreover have "ssl_frame c ?c"
    using ssl_frameI [OF v(2), where c = c
        and b = "c_bio c" and s = "c_ssl c" and sent = "c_sent c" and used = "c_used c"] by simp
  moreover have "chan_ok ?c" using assms(2) by (simp add: chan_ok_def)
  ultimately show ?thesis by blast
qed

lemma run_ssl_ok: "prog_all (env_x509 env) Q p \<Longrightarrow> quiet c \<Longrightarrow> chan_ok c \<Longrightarrow> ssl_ok Q env p c"
proof (induction p arbitrary: c)
  case (SSLReturn n err out s)
  have "ssl_frame c (c\<lparr>c_ssl := Some s\<rparr>)"
    using ssl_frameI [where vs = "[]" and c = c
        and b = "c_bio c" and s = "Some s" and sent = "c_sent c" and used = "c_used c"] by simp
  then show ?case using SSLReturn by (simp add: ssl_ok_def chan_ok_def)
next
  case (BioRead len k)
  then obtain n got c1 where s: "run_ssl (BioRead len k) env c = run_ssl (k n got) env c1" "ssl_frame c c1" "chan_ok c1"
    using run_BioRead [of len c k env] by auto
  show ?case by (rule ssl_ok_step [OF s(1,2) BioRead.prems(2) s(3)], rule BioRead.IH [OF rangeI rangeI]) (use BioRead.prems(1) in simp_all)
next
  case (BioWrite bytes k)
  obtain n c1 where s: "run_ssl (BioWrite bytes k) env c = run_ssl (k n) env c1" "ssl_frame c c1" "chan_ok c1"
    using run_BioWrite [OF BioWrite.prems(3), of bytes k env] by blast
  show ?case by (rule ssl_ok_step [OF s(1,2) BioWrite.prems(2) s(3)], rule BioWrite.IH [OF rangeI]) (use BioWrite.prems(1) in simp_all)
next
  case (SSLVerify chain k)
  obtain r c1 where s: "run_ssl (SSLVerify chain k) env c = run_ssl (k r) env c1" "ssl_frame c c1" "chan_ok c1"
    using run_SSLVerify [OF SSLVerify.prems(2,3,1)] by blast
  show ?case by (rule ssl_ok_step [OF s(1,2) SSLVerify.prems(2) s(3)], rule SSLVerify.IH [OF rangeI]) (use SSLVerify.prems(1) in simp_all)
qed

lemmas run_ssl_spec = run_ssl_ok [unfolded ssl_ok_def]

subsection \<open>How a callback changes the connection\<close>

definition coherent :: "'s tls_conn \<Rightarrow> bool" where
  "coherent c \<longleftrightarrow> c_wqasync_closed c = c_tcpsock_closed c \<and> c_dcasync_closed c = c_tcpsock_closed c
     \<and> (c_tcpsock_closed c \<longleftrightarrow> disconnected (c_state c))"

text \<open>OpenSSL is set up and the handles agree with the state.\<close>

definition live :: "'s tls_conn \<Rightarrow> bool" where
  "live c \<longleftrightarrow> quiet c \<and> chan_ok c \<and> c_ssl c \<noteq> None \<and> coherent c"

definition same_setup :: "'s tls_conn \<Rightarrow> 's tls_conn \<Rightarrow> bool" where
  "same_setup c c' \<longleftrightarrow> c_thread_id c' = c_thread_id c \<and> c_verify_handler c' = c_verify_handler c
     \<and> c_established_handler c' = c_established_handler c \<and> c_read_handler c' = c_read_handler c
     \<and> c_error_handler c' = c_error_handler c \<and> c_disconnect_handler c' = c_disconnect_handler c
     \<and> c_connecting c' = c_connecting c \<and> (c_reading c' \<longrightarrow> c_reading c)"

text \<open>
  The connection went from \<open>c\<close> to \<open>c'\<close>, telling the user \<open>es\<close>: it is as it was but for what OpenSSL
  did, or it has been shut down.
\<close>

definition evolves :: "tls_log list \<Rightarrow> 's tls_conn \<Rightarrow> 's tls_conn \<Rightarrow> bool" where
  "evolves es c c' \<longleftrightarrow> same_setup c c' \<and> c_recv c' = c_recv c \<and> c_wq c' = c_wq c
     \<and> chan_ok c' \<and> c_ssl c' \<noteq> None \<and> visible (c_log c') = visible (c_log c) @ es
     \<and> (c_state c' = c_state c \<and> c_tcpsock_closed c' = c_tcpsock_closed c
          \<and> c_wqasync_closed c' = c_wqasync_closed c \<and> c_dcasync_closed c' = c_dcasync_closed c
        \<or> \<not> disconnected (c_state c) \<and> disconnected (c_state c') \<and> all_closed c')"

lemma same_setup_refl [simp]: "same_setup c c"
  by (simp add: same_setup_def)

lemma evolves_refl: "live c \<Longrightarrow> evolves [] c c"
  by (simp add: evolves_def live_def)

lemma same_setup_trans: "same_setup a b \<Longrightarrow> same_setup b c \<Longrightarrow> same_setup a c"
  unfolding same_setup_def by (elim conjE) simp

lemma evolves_trans:
  assumes "evolves es a b" "evolves es' b c"
  shows "evolves (es @ es') a c"
proof -
  have "same_setup a c" using assms same_setup_trans by (auto simp: evolves_def)
  moreover have "\<not> disconnected (c_state a) \<and> disconnected (c_state c) \<and> all_closed c \<or> c_state c = c_state a
      \<and> c_tcpsock_closed c = c_tcpsock_closed a \<and> c_wqasync_closed c = c_wqasync_closed a
      \<and> c_dcasync_closed c = c_dcasync_closed a"
    using assms unfolding evolves_def all_closed_def by metis
  ultimately show ?thesis using assms unfolding evolves_def by (elim conjE, simp, blast)
qed

lemma coherent_closed: "disconnected (c_state c) \<Longrightarrow> all_closed c \<Longrightarrow> coherent c"
  by (simp add: coherent_def all_closed_def)

lemma evolves_live:
  assumes "evolves es c c'" "live c"
  shows "live c'"
proof -
  have "quiet c'" using assms by (simp add: evolves_def same_setup_def live_def quiet_def)
  moreover have "coherent c'"
  proof (cases "disconnected (c_state c') \<and> all_closed c'")
    case True
    then show ?thesis using coherent_closed by blast
  next
    case False
    then have "c_state c' = c_state c" "c_tcpsock_closed c' = c_tcpsock_closed c"
      "c_wqasync_closed c' = c_wqasync_closed c" "c_dcasync_closed c' = c_dcasync_closed c"
      using assms(1) unfolding evolves_def by blast+
    then show ?thesis using assms(2) unfolding live_def coherent_def by metis
  qed
  ultimately show ?thesis using assms(1) unfolding evolves_def live_def by blast
qed

lemma disconnected_simps [simp]:
  "disconnected TLS_CONNECTION_STATE_DISCONNECTED_ERROR"
  "disconnected TLS_CONNECTION_STATE_DISCONNECTED_REMOTE"
  "disconnected TLS_CONNECTION_STATE_DISCONNECTED_LOCAL"
  "\<not> disconnected TLS_CONNECTION_STATE_INVALID"
  "\<not> disconnected TLS_CONNECTION_STATE_PRE_CONNECT"
  "\<not> disconnected TLS_CONNECTION_STATE_STARVED_SSL_CONNECT"
  "\<not> disconnected TLS_CONNECTION_STATE_ESTABLISHED"
  by (simp_all add: disconnected_def less_eq_tls_state_def)

lemma Shutdown_open:
  assumes "coherent c" "\<not> disconnected (c_state c)"
  shows "Shutdown st c = Inr (c\<lparr>c_state := st, c_tcpsock_closed := True, c_reading := False,
    c_wqasync_closed := True, c_dcasync_closed := True\<rparr>)"
  using assms by (simp add: Shutdown_def uv_close_all_def coherent_def)

lemma Shutdown_twice: "coherent c \<Longrightarrow> disconnected (c_state c) \<Longrightarrow> Shutdown st c = Inl HandleClosed"
  by (simp add: Shutdown_def uv_close_all_def coherent_def)

lemma coherent_err [simp]: "coherent (c\<lparr>c_err := e\<rparr>) = coherent c"
  by (simp add: coherent_def)

text \<open>A callback that told the user \<open>es\<close> returned, or failed because the handles were closed before.\<close>

definition returns :: "tls_log list \<Rightarrow> 's tls_conn \<Rightarrow> 's tls_conn res \<Rightarrow> bool" where
  "returns es c r \<longleftrightarrow> r = Inl HandleClosed \<or> (\<exists>c'. r = Inr c' \<and> evolves es c c')"

lemma returns_Inr [simp]: "returns es c (Inr c') \<longleftrightarrow> evolves es c c'"
  by (simp add: returns_def)

lemma returns_bind:
  "returns es c r \<Longrightarrow> (\<And>c'. evolves es c c' \<Longrightarrow> returns es' c' (f c')) \<Longrightarrow>
   returns (es @ es') c (bindR r f)"
  unfolding returns_def using evolves_trans by fastforce

lemmas returns_bind_Nil = returns_bind [where es = "[]", simplified append_Nil]

lemma returns_trans: "evolves [] c c1 \<Longrightarrow> returns es c1 r \<Longrightarrow> returns es c r"
  unfolding returns_def using evolves_trans [of "[]" c c1 es] by auto

lemma Shutdown_returns:
  assumes "live c" "disconnected st"
  shows "returns [] c (Shutdown st (c\<lparr>c_err := e\<rparr>))"
proof (cases "disconnected (c_state c)")
  case True
  then show ?thesis using assms by (simp add: Shutdown_twice live_def returns_def)
next
  case False
  then show ?thesis
    using assms by (simp add: Shutdown_open live_def evolves_def same_setup_def chan_ok_def all_closed_def)
qed

lemma ShutdownError_returns: "live c \<Longrightarrow> returns [] c (ShutdownError e c)"
  unfolding ShutdownError_def by (erule Shutdown_returns) simp

lemma ShutdownRemote_returns: "live c \<Longrightarrow> returns [] c (ShutdownRemote c)"
  using Shutdown_returns [where e = "c_err c" and st = TLS_CONNECTION_STATE_DISCONNECTED_REMOTE and c = c]
  by (simp add: ShutdownRemote_def)

lemma Disconnect_returns: "live c \<Longrightarrow> returns [] c (Disconnect (c_thread_id c) c)"
  using Shutdown_returns [where e = "c_err c" and st = TLS_CONNECTION_STATE_DISCONNECTED_LOCAL and c = c]
  by (simp add: Disconnect_def)

lemma ssl_frame_evolves:
  assumes "live c" "ssl_frame c c'" "chan_ok c'" "c_ssl c' \<noteq> None"
  shows "evolves [] c c'"
  using assms by (auto simp: evolves_def ssl_frame_def same_setup_def)

lemma with_ssl_spec:
  assumes "live c" "\<And>s. prog_all (env_x509 env) Q (call s)"
  shows "\<exists>n err out c'. with_ssl call env c = Inr ((n, err, out), c') \<and> Q n out \<and> evolves [] c c'
    \<and> c_state c' = c_state c"
proof -
  obtain s where s: "c_ssl c = Some s" using assms(1) by (auto simp: live_def)
  obtain n err out c' where r: "run_ssl (call s) env c = Inr ((n, err, out), c')" "Q n out"
    "ssl_frame c c'" "chan_ok c'" "c_ssl c' \<noteq> None"
    using run_ssl_spec [OF assms(2), of c s] assms(1) unfolding live_def by metis
  have "c_state c' = c_state c" using r(3) by (auto simp: ssl_frame_def)
  with r s ssl_frame_evolves [OF assms(1) r(3-5)] show ?thesis by (simp add: with_ssl_def)
qed

lemma Write_returns:
  assumes "ssl_documented env" "live c"
  shows "returns [] c (Write env (c_thread_id c) buf c)"
proof -
  obtain n err out c1 where r: "with_ssl (\<lambda>s. SSL_write env s (content buf)) env c = Inr ((n, err, out), c1)"
    "evolves [] c c1"
    using with_ssl_spec [OF assms(2), of env "\<lambda>n out. True" "\<lambda>s. SSL_write env s (content buf)"] assms(1)
    by (auto simp: ssl_documented_def)
  have l: "live c1" using evolves_live [OF r(2) assms(2)] .
  show ?thesis
    using r(1) returns_trans [OF r(2)] ShutdownError_returns [OF l] ShutdownRemote_returns [OF l] r(2)
    by (simp add: Write_def)
qed

lemma run_calls_returns:
  assumes "ssl_documented env" "live c"
  shows "returns [] c (run_calls env calls c)"
  using assms(2)
proof (induction calls arbitrary: c)
  case (Cons call calls)
  have "returns [] c (bindR r (run_calls env calls))" if "returns [] c r" for r
    using returns_bind_Nil [OF that] Cons.IH evolves_live [OF _ Cons.prems] by blast
  then show ?case
    using Write_returns [OF assms(1) Cons.prems] Disconnect_returns [OF Cons.prems] by (cases call) simp_all
qed (simp add: evolves_refl)

end
