(* ===== verification/TLSFrame.thy ===== *)
theory TLSFrame
  imports TLSInv
begin

section \<open>What every operation leaves alone\<close>

text \<open>
  The frame of the operations of a connection, under no assumption on OpenSSL or on the handlers: the
  handlers, the thread and the write queue stay, and what has been reported is only added to
  (\<open>keeps\<close>). A call of OpenSSL moreover reports nothing but verifications, and does not change the
  state but by disconnecting. The theories on verification, on the delivery of data and on the write
  queue rest on these lemmas.
\<close>

definition keeps :: "'s tls_conn \<Rightarrow> 's tls_conn \<Rightarrow> bool" where
  "keeps c c' \<longleftrightarrow> c_verify_handler c' = c_verify_handler c \<and> c_established_handler c' = c_established_handler c
     \<and> c_read_handler c' = c_read_handler c \<and> c_thread_id c' = c_thread_id c \<and> c_wq c' = c_wq c
     \<and> c_wq_signal c' = c_wq_signal c \<and> (\<exists>es. c_log c' = c_log c @ es)"

lemma keeps_refl [simp, intro]: "keeps c c"
  by (simp add: keeps_def)

lemma keeps_trans: "keeps a b \<Longrightarrow> keeps b c \<Longrightarrow> keeps a c"
  by (auto simp: keeps_def)

subsection \<open>Shutting down\<close>

lemma Shutdown_frame:
  "Shutdown st c = Inr c' \<Longrightarrow> keeps c c' \<and> c_ssl c' = c_ssl c \<and> c_used c' = c_used c \<and> c_log c' = c_log c
     \<and> c_state c' = st"
  by (auto simp: Shutdown_def uv_close_all_def keeps_def split: if_splits)

lemma ShutdownError_frame:
  "ShutdownError e c = Inr c' \<Longrightarrow> keeps c c' \<and> c_ssl c' = c_ssl c \<and> c_used c' = c_used c \<and> c_log c' = c_log c
     \<and> disconnected (c_state c')"
  unfolding ShutdownError_def by (drule Shutdown_frame) (simp add: keeps_def)

lemma ShutdownRemote_frame:
  "ShutdownRemote c = Inr c' \<Longrightarrow> keeps c c' \<and> c_ssl c' = c_ssl c \<and> c_used c' = c_used c \<and> c_log c' = c_log c
     \<and> disconnected (c_state c')"
  unfolding ShutdownRemote_def by (drule Shutdown_frame) simp

lemma Disconnect_frame:
  "Disconnect us c = Inr c' \<Longrightarrow> keeps c c' \<and> c_ssl c' = c_ssl c \<and> c_used c' = c_used c \<and> c_log c' = c_log c
     \<and> (c_state c' = c_state c \<or> disconnected (c_state c'))"
  by (auto simp: Disconnect_def Let_def keeps_def dest!: Shutdown_frame split: if_splits)

lemma shutdown_keeps:
  "Shutdown st c = Inr c' \<Longrightarrow> keeps c c'" "ShutdownError e c = Inr c' \<Longrightarrow> keeps c c'"
  "ShutdownRemote c = Inr c' \<Longrightarrow> keeps c c'" "Disconnect us c = Inr c' \<Longrightarrow> keeps c c'"
  using Shutdown_frame ShutdownError_frame ShutdownRemote_frame Disconnect_frame by blast+

subsection \<open>Calls of OpenSSL\<close>

text \<open>
  The verification callback: a chain that cannot be encoded ends the connection; otherwise the
  handler decides and may disconnect, or, without one, the system's verifier.
\<close>

lemma SSLVerifyCallback_branches:
  assumes "SSLVerifyCallback env chain c = Inr (r, c')"
  shows "r = 0 \<and> (\<exists>e. ShutdownError e c = Inr c') \<or> c_verify_handler c = None \<and> c' = c
    \<or> (\<exists>h certs ok d. c_verify_handler c = Some h \<and> h (c_log c) certs = (ok, d) \<and> r = (if ok then 1 else 0)
        \<and> (if d then Disconnect (c_thread_id c) (c\<lparr>c_log := c_log c @ [LogVerify certs]\<rparr>)
           else Inr (c\<lparr>c_log := c_log c @ [LogVerify certs]\<rparr>)) = Inr c')"
proof -
  obtain certs where l: "SSLVerifyCallback_loop (env_x509 env) chain [] = Inr certs"
    using assms by (auto simp: SSLVerifyCallback_def bindR_eq_Inr_iff)
  show ?thesis
  proof (cases certs)
    case None
    then obtain e where "r = 0" "ShutdownError e c = Inr c'"
      using assms l by (auto simp: SSLVerifyCallback_def bindR_eq_Inr_iff split: prod.splits)
    then show ?thesis by blast
  next
    case (Some cs)
    show ?thesis
    proof (cases "c_verify_handler c")
      case None
      then show ?thesis using assms l Some by (simp add: SSLVerifyCallback_def Let_def)
    next
      case h: (Some h)
      obtain ok d where "h (c_log c) cs = (ok, d)" by (cases "h (c_log c) cs")
      then show ?thesis
        using assms l Some h by (auto simp: SSLVerifyCallback_def bindR_eq_Inr_iff Let_def split: if_splits)
    qed
  qed
qed

text \<open>It returns a positive value only with the approval of the handler, which was called with the log of that time.\<close>

lemma SSLVerifyCallback_frame:
  assumes "SSLVerifyCallback env chain c = Inr (r, c')"
  shows "keeps c c' \<and> c_ssl c' = c_ssl c \<and> c_used c' = c_used c
    \<and> (c_state c' = c_state c \<or> disconnected (c_state c')) \<and> (\<exists>vs. c_log c' = c_log c @ vs \<and> visible vs = [])
    \<and> (\<forall>h. c_verify_handler c = Some h \<longrightarrow> 0 < r \<longrightarrow>
        (\<exists>certs. c_log c' = c_log c @ [LogVerify certs] \<and> fst (h (c_log c) certs)))"
  using SSLVerifyCallback_branches [OF assms]
proof (elim disjE exE conjE)
  fix e assume "r = 0" "ShutdownError e c = Inr c'"
  then show ?thesis using ShutdownError_frame [of e c c'] by simp
next
  fix h certs ok d
  let ?c = "c\<lparr>c_log := c_log c @ [LogVerify certs]\<rparr>"
  assume h: "c_verify_handler c = Some h" "h (c_log c) certs = (ok, d)" "r = (if ok then 1 else 0)"
    "(if d then Disconnect (c_thread_id c) ?c else Inr ?c) = Inr c'"
  have f: "keeps ?c c' \<and> c_ssl c' = c_ssl c \<and> c_used c' = c_used c \<and> c_log c' = c_log ?c
      \<and> (c_state c' = c_state c \<or> disconnected (c_state c'))"
    using h(4) Disconnect_frame [of "c_thread_id c" ?c c'] by (cases d) auto
  then have "keeps c c'" by (simp add: keeps_def)
  then show ?thesis using f h(1-3) by simp
qed simp

text \<open>The verification of a chain, by the callback if the context has it.\<close>

lemma ssl_verify_cert_chain_frame:
  assumes "ssl_verify_cert_chain env chain c = Inr (r, c')"
  shows "keeps c c' \<and> c_ssl c' = c_ssl c \<and> c_used c' = c_used c
    \<and> (c_state c' = c_state c \<or> disconnected (c_state c')) \<and> (\<exists>vs. c_log c' = c_log c @ vs \<and> visible vs = [])
    \<and> (\<forall>h. ctx_cert_verify_callback (c_ctx c) \<longrightarrow> c_verify_handler c = Some h \<longrightarrow> 0 < r \<longrightarrow>
        (\<exists>certs. c_log c' = c_log c @ [LogVerify certs] \<and> fst (h (c_log c) certs)))"
proof (cases "ctx_cert_verify_callback (c_ctx c)")
  case True
  then have "SSLVerifyCallback env chain c = Inr (r, c')" using assms by (simp add: ssl_verify_cert_chain_def)
  from SSLVerifyCallback_frame [OF this] show ?thesis by blast
next
  case False
  then show ?thesis using assms by (auto simp: ssl_verify_cert_chain_def)
qed

text \<open>No operation but \<open>OnConnect\<close> touches the context.\<close>

lemma shutdown_ctx:
  "Shutdown st c = Inr c' \<Longrightarrow> c_ctx c' = c_ctx c" "ShutdownError e c = Inr c' \<Longrightarrow> c_ctx c' = c_ctx c"
  "ShutdownRemote c = Inr c' \<Longrightarrow> c_ctx c' = c_ctx c" "Disconnect us c = Inr c' \<Longrightarrow> c_ctx c' = c_ctx c"
  by (auto simp: ShutdownError_def ShutdownRemote_def Disconnect_def Shutdown_def uv_close_all_def Let_def
      split: if_splits)

lemma ssl_verify_cert_chain_ctx:
  assumes "ssl_verify_cert_chain env chain c = Inr (r, c')"
  shows "c_ctx c' = c_ctx c"
proof (cases "ctx_cert_verify_callback (c_ctx c)")
  case True
  then have "SSLVerifyCallback env chain c = Inr (r, c')" using assms by (simp add: ssl_verify_cert_chain_def)
  from SSLVerifyCallback_branches [OF this] show ?thesis by (auto dest!: shutdown_ctx(2,4) split: if_splits)
next
  case False
  then show ?thesis using assms by (simp add: ssl_verify_cert_chain_def)
qed

lemma run_ssl_ctx: "run_ssl p env c = Inr (x, c') \<Longrightarrow> c_ctx c' = c_ctx c"
proof (induction p arbitrary: c)
  case (BioRead len k)
  then obtain m buf b where "UVBio_Read (BIO_retry_read env) (c_bio c) (c_malloc len) len = Inr (m, buf, b)"
    by (auto simp: bindR_eq_Inr_iff)
  with BioRead show ?case by (fastforce simp: Let_def)
next
  case (SSLVerify chain k)
  then show ?case using ssl_verify_cert_chain_ctx by (fastforce simp: bindR_eq_Inr_iff)
qed (fastforce simp: bindR_eq_Inr_iff)+

lemma run_ssl_frame:
  "run_ssl p env c = Inr ((n, err, out), c') \<Longrightarrow>
   keeps c c' \<and> (c_state c' = c_state c \<or> disconnected (c_state c'))
     \<and> (\<exists>vs. c_log c' = c_log c @ vs \<and> visible vs = [])"
proof (induction p arbitrary: c)
  case (SSLReturn m e o s)
  then show ?case by (auto simp: keeps_def)
next
  case (BioRead len k)
  then obtain m buf b where "UVBio_Read (BIO_retry_read env) (c_bio c) (c_malloc len) len = Inr (m, buf, b)"
    by (auto simp: bindR_eq_Inr_iff)
  with BioRead show ?case by (fastforce simp: Let_def keeps_def)
next
  case (BioWrite bytes k)
  then obtain m w where "UVBio_Write (env_uv_write_ok env \<and> \<not> c_tcpsock_closed c) (c_bio c) bytes
      (int (length bytes)) = Inr (m, w)"
    by (auto simp: bindR_eq_Inr_iff)
  with BioWrite show ?case by (fastforce simp: keeps_def)
next
  case (SSLVerify chain k)
  then obtain r d where r: "ssl_verify_cert_chain env chain c = Inr (r, d)"
    "run_ssl (k r) env d = Inr ((n, err, out), c')"
    by (auto simp: bindR_eq_Inr_iff)
  show ?case
    using SSLVerify.IH [OF rangeI r(2)] ssl_verify_cert_chain_frame [OF r(1)] keeps_trans by fastforce
qed

lemma with_ssl_run:
  assumes "with_ssl call env c = Inr (x, c')"
  shows "\<exists>s. c_ssl c = Some s \<and> run_ssl (call s) env c = Inr (x, c')"
  using assms by (auto simp: with_ssl_def split: option.splits)

lemma with_ssl_keeps: "with_ssl call env c = Inr ((n, err, out), c') \<Longrightarrow> keeps c c'"
  using with_ssl_run run_ssl_frame by blast

subsection \<open>The operations\<close>

lemma Write_branches:
  assumes "Write env (c_thread_id c) buf c = Inr c'"
  shows "\<exists>n err out d. with_ssl (\<lambda>s. SSL_write env s (content buf)) env c = Inr ((n, err, out), d)
    \<and> (c' = d \<or> (\<exists>e. ShutdownError e d = Inr c') \<or> ShutdownRemote d = Inr c')"
proof -
  obtain n err out d where d: "with_ssl (\<lambda>s. SSL_write env s (content buf)) env c = Inr ((n, err, out), d)"
    "(if n < 0 then ShutdownError (ErrorFromOpenSSLErrorCode (SSL_error_num env) err) d
      else if n = 0 then ShutdownRemote d else Inr d) = Inr c'"
    using assms by (auto simp: Write_def bindR_eq_Inr_iff)
  then have "c' = d \<or> (\<exists>e. ShutdownError e d = Inr c') \<or> ShutdownRemote d = Inr c'"
    by (auto split: if_splits)
  with d(1) show ?thesis by blast
qed

lemma Write_keeps: "Write env (c_thread_id c) buf c = Inr c' \<Longrightarrow> keeps c c'"
  using Write_branches [of env c buf c'] with_ssl_keeps shutdown_keeps(2,3) keeps_trans by blast

text \<open>From another thread \<open>Write\<close> only queues, and \<open>Disconnect\<close> only wakes the loop.\<close>

lemma foreign_Write:
  assumes "Write env us buf c = Inr c'" "us \<noteq> c_thread_id c"
  shows "\<exists>q sig. c' = c\<lparr>c_wq := c_wq c @ q, c_wq_signal := sig\<rparr>"
proof (cases "0 < c_thread_id c")
  case True
  then obtain copy where "ByteArray_copy buf = Inr copy"
    using assms by (cases "ByteArray_copy buf") (simp_all add: Write_def)
  then have "c' = c\<lparr>c_wq := c_wq c @ [copy], c_wq_signal := c_wq_signal c \<or> \<not> c_wqasync_closed c\<rparr>"
    using assms True by (auto simp: Write_def)
  then show ?thesis by blast
next
  case False
  then have "c' = c\<lparr>c_wq := c_wq c @ [], c_wq_signal := c_wq_signal c\<rparr>"
    using assms by (simp add: Write_def)
  then show ?thesis by blast
qed

lemma foreign_Disconnect:
  "Disconnect us c = Inr c' \<Longrightarrow> us \<noteq> c_thread_id c \<Longrightarrow> \<exists>sig. c' = c\<lparr>c_dc_signal := sig\<rparr>"
  by (auto simp: Disconnect_def Let_def split: if_splits intro: exI [of _ "c_dc_signal c"] exI [of _ True])

lemma run_calls_keeps: "run_calls env calls c = Inr c' \<Longrightarrow> keeps c c'"
proof (induction calls arbitrary: c)
  case (Cons call calls)
  obtain d where "keeps c d" "run_calls env calls d = Inr c'"
    using Cons.prems by (cases call) (auto simp: bindR_eq_Inr_iff dest: Write_keeps shutdown_keeps(4))
  then show ?case using Cons.IH keeps_trans by blast
qed simp

lemma TransitionToConnectionEstablishedState_keeps:
  assumes "TransitionToConnectionEstablishedState env c = Inr c'"
  shows "keeps c c'"
proof (cases "c_established_handler c")
  case None
  then show ?thesis using assms by (auto simp: TransitionToConnectionEstablishedState_def keeps_def)
next
  case (Some g)
  let ?c = "c\<lparr>c_state := TLS_CONNECTION_STATE_ESTABLISHED, c_log := c_log c @ [LogEstablished]\<rparr>"
  have "keeps ?c c'"
    using run_calls_keeps [of env "g (c_log c)" ?c c'] assms Some
    by (simp add: TransitionToConnectionEstablishedState_def)
  then show ?thesis by (auto simp: keeps_def)
qed

text \<open>The branches of a step of the handshake.\<close>

lemma HandleStarvedConnectState_branches:
  assumes "HandleStarvedConnectState env c = Inr (b, c')"
  shows "\<exists>n err out d. with_ssl (SSL_connect env) env c = Inr ((n, err, out), d)
    \<and> (n = 1 \<and> b \<and> TransitionToConnectionEstablishedState env d = Inr c'
       \<or> n \<noteq> 1 \<and> \<not> b \<and> (c' = d \<or> (\<exists>e. ShutdownError e d = Inr c') \<or> ShutdownRemote d = Inr c'))"
proof -
  obtain n err out d where w: "with_ssl (SSL_connect env) env c = Inr ((n, err, out), d)"
    using assms by (auto simp: HandleStarvedConnectState_def bindR_eq_Inr_iff)
  consider "n < 0" | "n = 0" | "n = 1" | "1 < n" by linarith
  then show ?thesis
    by cases (use assms w in \<open>auto simp: HandleStarvedConnectState_def NotReached_def bindR_eq_Inr_iff
      split: if_splits\<close>)
qed

lemma HandleStarvedConnectState_keeps: "HandleStarvedConnectState env c = Inr (b, c') \<Longrightarrow> keeps c c'"
  using HandleStarvedConnectState_branches [of env c b c'] with_ssl_keeps shutdown_keeps(2,3)
    TransitionToConnectionEstablishedState_keeps keeps_trans by blast

subsection \<open>The reading loop\<close>

text \<open>One round of the loop: it ends, or it goes on, as \<open>f\<close>, with a connection that has evolved.\<close>

definition OnRead_body ::
    "(('s, 'h, 'q) tls_env \<Rightarrow> bytearray \<Rightarrow> 's tls_conn \<Rightarrow> 's tls_conn res option) \<Rightarrow>
     ('s, 'h, 'q) tls_env \<Rightarrow> bytearray \<Rightarrow> 's tls_conn \<Rightarrow> 's tls_conn res option" where
  "OnRead_body f env processed c =
     (case with_ssl (\<lambda>s. SSL_read env s (Capacity processed)) env c of
        Inl e \<Rightarrow> Some (Inl e)
      | Inr ((nread, SSLerr, out), c) \<Rightarrow>
          if nread = -1
          then (if SSLerr = SSL_ERROR_WANT_READ \<or> SSLerr = SSL_ERROR_WANT_WRITE then Some (Inr c)
                else Some (ShutdownError (ErrorFromOpenSSLErrorCode (SSL_error_num env) SSLerr) c))
          else if nread = 0 then Some (ShutdownRemote c)
          else
            (case bindR (Data_write processed 0 out) (\<lambda>p. Truncate p nread) of
               Inl e \<Rightarrow> Some (Inl e)
             | Inr processed \<Rightarrow>
                 (case (case c_read_handler c of
                          None \<Rightarrow> Inr c
                        | Some handler \<Rightarrow>
                            run_calls env (handler (c_log c) processed)
                              (c\<lparr>c_log := c_log c @ [LogRead (content processed)]\<rparr>)) of
                    Inl e \<Rightarrow> Some (Inl e)
                  | Inr c \<Rightarrow> f env processed c)))"

lemma OnRead_loop_body: "OnRead_loop env p c = OnRead_body OnRead_loop env p c"
  by (subst OnRead_loop.simps) (simp only: OnRead_body_def)

lemmas OnRead_loop_induct = OnRead_loop.raw_induct [folded OnRead_body_def]

text \<open>One round of the reading loop that ends the loop, or goes on with the next.\<close>

lemma OnRead_body_branches:
  assumes "OnRead_body f env p c = Some (Inr c')"
  shows "\<exists>n err out d. with_ssl (\<lambda>s. SSL_read env s (Capacity p)) env c = Inr ((n, err, out), d)
    \<and> ((n = -1 \<or> n = 0) \<and> (c' = d \<or> (\<exists>e. ShutdownError e d = Inr c') \<or> ShutdownRemote d = Inr c')
       \<or> n \<noteq> -1 \<and> n \<noteq> 0 \<and> (\<exists>p' e. bindR (Data_write p 0 out) (\<lambda>p. Truncate p n) = Inr p' \<and> f env p' e = Some (Inr c')
         \<and> (case c_read_handler d of None \<Rightarrow> Inr d
            | Some g \<Rightarrow> run_calls env (g (c_log d) p') (d\<lparr>c_log := c_log d @ [LogRead (content p')]\<rparr>)) = Inr e))"
proof -
  obtain n err out d where d: "with_ssl (\<lambda>s. SSL_read env s (Capacity p)) env c = Inr ((n, err, out), d)"
    using assms by (auto simp: OnRead_body_def split: sum.splits)
  show ?thesis
  proof (cases "n = -1 \<or> n = 0")
    case True
    then have "c' = d \<or> (\<exists>e. ShutdownError e d = Inr c') \<or> ShutdownRemote d = Inr c'"
      using assms d by (auto simp: OnRead_body_def split: if_splits)
    then show ?thesis using d True by blast
  next
    case False
    then have "\<exists>p' e. bindR (Data_write p 0 out) (\<lambda>p. Truncate p n) = Inr p' \<and> f env p' e = Some (Inr c')
         \<and> (case c_read_handler d of None \<Rightarrow> Inr d
            | Some g \<Rightarrow> run_calls env (g (c_log d) p') (d\<lparr>c_log := c_log d @ [LogRead (content p')]\<rparr>)) = Inr e"
      using assms d by (auto simp: OnRead_body_def split: sum.splits)
    then show ?thesis using d False by blast
  qed
qed

lemma handle_read_keeps:
  assumes "(case c_read_handler d of None \<Rightarrow> Inr d
      | Some g \<Rightarrow> run_calls env (g (c_log d) p) (d\<lparr>c_log := c_log d @ [LogRead (content p)]\<rparr>)) = Inr e"
  shows "keeps d e"
proof (cases "c_read_handler d")
  case (Some g)
  then have "keeps (d\<lparr>c_log := c_log d @ [LogRead (content p)]\<rparr>) e" using assms run_calls_keeps by simp
  then show ?thesis by (auto simp: keeps_def)
qed (use assms in simp)

lemma OnRead_loop_keeps:
  fixes env :: "('s, 'h, 'q) tls_env"
  assumes "OnRead_loop env p c = Some (Inr c')"
  shows "keeps c c'"
proof -
  let ?P = "\<lambda>(env :: ('s, 'h, 'q) tls_env) p c r. \<forall>c'. r = Inr c' \<longrightarrow> keeps c c'"
  have "?P env p c r" if "OnRead_loop env p c = Some r" for r
  proof (rule OnRead_loop_induct [where P = ?P, OF _ that], intro allI impI)
    fix f env p c r c'
    assume IH: "\<And>env p c r. f env p c = Some r \<Longrightarrow> ?P env p c r"
      and body: "OnRead_body f env p c = Some r" and r: "r = Inr c'"
    obtain n err out d where d: "with_ssl (\<lambda>s. SSL_read env s (Capacity p)) env c = Inr ((n, err, out), d)"
      and b: "(c' = d \<or> (\<exists>e. ShutdownError e d = Inr c') \<or> ShutdownRemote d = Inr c')
        \<or> (\<exists>p' e. f env p' e = Some (Inr c') \<and> (case c_read_handler d of None \<Rightarrow> Inr d
            | Some g \<Rightarrow> run_calls env (g (c_log d) p') (d\<lparr>c_log := c_log d @ [LogRead (content p')]\<rparr>)) = Inr e)"
      using OnRead_body_branches [OF body [unfolded r]] by blast
    have "keeps d c'"
      using b shutdown_keeps(2,3) keeps_refl IH handle_read_keeps keeps_trans by (elim disjE exE conjE) blast+
    then show "keeps c c'" using with_ssl_keeps [OF d] keeps_trans by blast
  qed
  from this [OF assms] show ?thesis by blast
qed

text \<open>A connection whose request has succeeded, before the first call of \<open>SSL_connect\<close>.\<close>

definition peer_ctx :: ssl_ctx where
  "peer_ctx = \<lparr>ctx_method = TLSv1_client_method,
     ctx_verify_mode = {SSL_VERIFY_PEER, SSL_VERIFY_FAIL_IF_NO_PEER_CERT}, ctx_cert_verify_callback = True,
     ctx_cert_store = []\<rparr>"

lemma peer_ctx_sel [simp]:
  "SSL_VERIFY_PEER \<in> ctx_verify_mode peer_ctx" "ctx_cert_verify_callback peer_ctx"
  "ctx_cert_store peer_ctx = []"
  by (simp_all add: peer_ctx_def)

definition ssl_started :: "('s, 'h, 'q) tls_env \<Rightarrow> 's tls_conn \<Rightarrow> 's tls_conn" where
  "ssl_started env c = c\<lparr>c_connecting := False, c_reading := True, c_ssl := Some (SSL_new env peer_ctx),
     c_bio := (snd (UVBio_Create (c_bio c)))\<lparr>bio_ptr := Some UVBioState_new\<rparr>, c_ctx := peer_ctx,
     c_state := TLS_CONNECTION_STATE_STARVED_SSL_CONNECT\<rparr>"

lemma OnConnect_branches:
  assumes "OnConnect env status read_ok c = Inr c'"
  shows "c_state c = TLS_CONNECTION_STATE_PRE_CONNECT
    \<and> ((\<exists>e. ShutdownError e (c\<lparr>c_connecting := False\<rparr>) = Inr c')
       \<or> (\<exists>b. HandleStarvedConnectState env (ssl_started env c) = Inr (b, c')))"
proof -
  have st: "c_state c = TLS_CONNECTION_STATE_PRE_CONNECT"
    using assms by (auto simp: OnConnect_def assertR_def split: if_splits)
  show ?thesis
  proof (cases "status = -1 \<or> \<not> read_ok")
    case True
    then have "\<exists>e. ShutdownError e (c\<lparr>c_connecting := False\<rparr>) = Inr c'"
      using assms st by (cases "status = -1") (auto simp: OnConnect_def assertR_def)
    then show ?thesis using st by blast
  next
    case False
    then have "bindR (HandleStarvedConnectState env (ssl_started env c)) (\<lambda>(_, c). Inr c) = Inr c'"
      using assms st by (simp add: OnConnect_def assertR_def Let_def ssl_started_def peer_ctx_def SSL_CTX_new_def
          X509_STORE_new_def)
    then show ?thesis using st by (auto simp: bindR_eq_Inr_iff)
  qed
qed

lemma OnConnect_keeps:
  assumes "OnConnect env status read_ok c = Inr c'"
  shows "keeps c c'"
proof -
  have "keeps (c\<lparr>c_connecting := False\<rparr>) c' \<or> keeps (ssl_started env c) c'"
    using OnConnect_branches [OF assms] shutdown_keeps(2) HandleStarvedConnectState_keeps by blast
  then show ?thesis by (auto simp: keeps_def ssl_started_def)
qed

text \<open>
  What \<open>OnRead\<close> does with data in a running state: the connection is fed the buffer, the handshake goes
  on if it has not ended, and the loop reads when the session is open.
\<close>

definition fed :: "bytearray \<Rightarrow> uvbio_state \<Rightarrow> 's tls_conn \<Rightarrow> 's tls_conn" where
  "fed b biostate c = c\<lparr>c_bio := (c_bio c)\<lparr>bio_ptr := Some (PutNewBuffer b biostate)\<rparr>,
     c_recv := c_recv c @ content b\<rparr>"

definition shake :: "('s, 'h, 'q) tls_env \<Rightarrow> 's tls_conn \<Rightarrow> (bool \<times> 's tls_conn) res" where
  "shake env c = (if c_state c = TLS_CONNECTION_STATE_STARVED_SSL_CONNECT
     then HandleStarvedConnectState env c else Inr (True, c))"

definition deliver ::
    "('s, 'h, 'q) tls_env \<Rightarrow> int \<Rightarrow> (bool \<times> 's tls_conn) res \<Rightarrow> 's tls_conn res option" where
  "deliver env nread r =
     (case r of
        Inl e \<Rightarrow> Some (Inl e)
      | Inr (go_on, c) \<Rightarrow>
          if \<not> go_on then Some (Inr c)
          else if c_state c = TLS_CONNECTION_STATE_ESTABLISHED then OnRead_loop env (ByteArray_len nread) c
          else Some (Inr c))"

lemma deliver_simps [simp]:
  "deliver env nread (Inl e) = Some (Inl e)"
  "deliver env nread (Inr (go_on, c)) = (if go_on \<and> c_state c = TLS_CONNECTION_STATE_ESTABLISHED
     then OnRead_loop env (ByteArray_len nread) c else Some (Inr c))"
  by (simp_all add: deliver_def)

lemma fed_sel [simp]: "c_state (fed b st c) = c_state c" "c_ssl (fed b st c) = c_ssl c"
  by (simp_all add: fed_def)

lemma OnRead_eq:
  assumes "c_state c = TLS_CONNECTION_STATE_STARVED_SSL_CONNECT \<or> c_state c = TLS_CONNECTION_STATE_ESTABLISHED"
    "nread \<noteq> -1" "nread \<noteq> 0"
  shows "OnRead env nread buf buf_len c =
    (case ByteArray_buf buf nread buf_len of
       Inl e \<Rightarrow> Some (Inl e)
     | Inr b \<Rightarrow>
         (case bio_ptr (c_bio c) of
            None \<Rightarrow> Some (Inl OutOfBounds)
          | Some st \<Rightarrow> deliver env nread (shake env (fed b st c))))"
proof -
  have r: "\<not> (c_state c \<noteq> TLS_CONNECTION_STATE_STARVED_SSL_CONNECT \<and> c_state c \<noteq> TLS_CONNECTION_STATE_ESTABLISHED)"
    using assms(1) by blast
  show ?thesis
    unfolding OnRead_def if_not_P [OF r] if_not_P [OF assms(2)] if_not_P [OF assms(3)]
    by (simp only: fed_def shake_def deliver_def Let_def)
qed

lemma OnRead_data:
  assumes "c_state c = TLS_CONNECTION_STATE_STARVED_SSL_CONNECT \<or> c_state c = TLS_CONNECTION_STATE_ESTABLISHED"
    "nread \<noteq> -1" "nread \<noteq> 0" "OnRead env nread buf buf_len c = Some (Inr c')"
  shows "\<exists>b st go_on e. shake env (fed b st c) = Inr (go_on, e)
    \<and> (if go_on \<and> c_state e = TLS_CONNECTION_STATE_ESTABLISHED
        then OnRead_loop env (ByteArray_len nread) e = Some (Inr c') else e = c')"
proof -
  obtain b st where d: "deliver env nread (shake env (fed b st c)) = Some (Inr c')"
    using assms(4) unfolding OnRead_eq [OF assms(1-3)] by (auto split: sum.splits option.splits)
  then obtain go_on e where e: "shake env (fed b st c) = Inr (go_on, e)"
    by (cases "shake env (fed b st c)") auto
  then show ?thesis using d by (intro exI [of _ b] exI [of _ st] exI [of _ go_on] exI [of _ e]) (auto split: if_splits)
qed

text \<open>The other cases end the connection or do nothing.\<close>

lemma OnRead_ends:
  assumes "\<not> ((c_state c = TLS_CONNECTION_STATE_STARVED_SSL_CONNECT \<or> c_state c = TLS_CONNECTION_STATE_ESTABLISHED)
    \<and> nread \<noteq> -1 \<and> nread \<noteq> 0)" "OnRead env nread buf buf_len c = Some (Inr c')"
  shows "c' = c \<or> (\<exists>e. ShutdownError e c = Inr c') \<or> ShutdownRemote c = Inr c'"
  using assms by (auto simp: OnRead_def Let_def split: if_splits)

lemma shake_keeps: "shake env c = Inr (go_on, e) \<Longrightarrow> keeps c e"
  using HandleStarvedConnectState_keeps by (auto simp: shake_def split: if_splits)

lemma OnRead_keeps:
  assumes "OnRead env nread buf buf_len c = Some (Inr c')"
  shows "keeps c c'"
proof (cases "(c_state c = TLS_CONNECTION_STATE_STARVED_SSL_CONNECT \<or> c_state c = TLS_CONNECTION_STATE_ESTABLISHED)
    \<and> nread \<noteq> -1 \<and> nread \<noteq> 0")
  case False
  from OnRead_ends [OF this assms] show ?thesis using shutdown_keeps(2,3) keeps_refl by blast
next
  case True
  then have "c_state c = TLS_CONNECTION_STATE_STARVED_SSL_CONNECT \<or> c_state c = TLS_CONNECTION_STATE_ESTABLISHED"
    "nread \<noteq> -1" "nread \<noteq> 0" by blast+
  from OnRead_data [OF this assms] obtain b st go_on e where e: "shake env (fed b st c) = Inr (go_on, e)"
      "(if go_on \<and> c_state e = TLS_CONNECTION_STATE_ESTABLISHED
        then OnRead_loop env (ByteArray_len nread) e = Some (Inr c') else e = c')"
    by blast
  have "keeps c (fed b st c)" by (simp add: keeps_def fed_def)
  moreover have "keeps (fed b st c) e" by (rule shake_keeps [OF e(1)])
  moreover have "keeps e c'" using e(2) OnRead_loop_keeps by (auto split: if_splits)
  ultimately show ?thesis using keeps_trans by blast
qed

subsection \<open>The write queue\<close>

text \<open>Nothing but \<open>Write\<close> from another thread and the draining touches the queue.\<close>

definition with_wq :: "bytearray list \<Rightarrow> 's tls_conn res \<Rightarrow> 's tls_conn res" where
  "with_wq wq r = bindR r (\<lambda>c. Inr (c\<lparr>c_wq := wq\<rparr>))"

lemma with_wq_simps [simp]:
  "with_wq wq (Inl e) = Inl e" "with_wq wq (Inr c) = Inr (c\<lparr>c_wq := wq\<rparr>)"
  by (simp_all add: with_wq_def)

lemma wq_outermost:
  "c\<lparr>c_wq := wq, c_bio := b\<rparr> = c\<lparr>c_bio := b, c_wq := wq\<rparr>"
  "c\<lparr>c_wq := wq, c_used := u\<rparr> = c\<lparr>c_used := u, c_wq := wq\<rparr>"
  "c\<lparr>c_wq := wq, c_sent := u\<rparr> = c\<lparr>c_sent := u, c_wq := wq\<rparr>"
  "c\<lparr>c_wq := wq, c_ssl := s\<rparr> = c\<lparr>c_ssl := s, c_wq := wq\<rparr>"
  "c\<lparr>c_wq := wq, c_log := l\<rparr> = c\<lparr>c_log := l, c_wq := wq\<rparr>"
  "c\<lparr>c_wq := wq, c_err := e\<rparr> = c\<lparr>c_err := e, c_wq := wq\<rparr>"
  "c\<lparr>c_wq := wq, c_state := st\<rparr> = c\<lparr>c_state := st, c_wq := wq\<rparr>"
  by simp_all

lemma uv_close_all_wq: "uv_close_all (c\<lparr>c_wq := wq\<rparr>) = with_wq wq (uv_close_all c)"
  by (simp add: uv_close_all_def)

lemma Shutdown_wq: "Shutdown st (c\<lparr>c_wq := wq\<rparr>) = with_wq wq (Shutdown st c)"
  by (simp add: Shutdown_def wq_outermost uv_close_all_wq)

lemma ShutdownError_wq: "ShutdownError e (c\<lparr>c_wq := wq\<rparr>) = with_wq wq (ShutdownError e c)"
  by (simp add: ShutdownError_def wq_outermost Shutdown_wq)

lemma Disconnect_wq:
  "Disconnect (c_thread_id c) (c\<lparr>c_wq := wq\<rparr>) = with_wq wq (Disconnect (c_thread_id c) c)"
  by (simp add: Disconnect_def Shutdown_wq)

lemma SSLVerifyCallback_wq:
  "SSLVerifyCallback env chain (c\<lparr>c_wq := wq\<rparr>)
     = bindR (SSLVerifyCallback env chain c) (\<lambda>(r, c). Inr (r, c\<lparr>c_wq := wq\<rparr>))"
  using Disconnect_wq [of "c\<lparr>c_log := l\<rparr>" wq for l]
  by (auto simp: wq_outermost SSLVerifyCallback_def ShutdownError_wq with_wq_def bindR_assoc Let_def
      split: option.splits prod.splits intro!: bindR_cong)

lemma ssl_verify_cert_chain_wq:
  "ssl_verify_cert_chain env chain (c\<lparr>c_wq := wq\<rparr>)
     = bindR (ssl_verify_cert_chain env chain c) (\<lambda>(r, c). Inr (r, c\<lparr>c_wq := wq\<rparr>))"
  by (simp add: ssl_verify_cert_chain_def SSLVerifyCallback_wq)

lemma run_ssl_wq:
  "run_ssl p env (c\<lparr>c_wq := wq\<rparr>) = bindR (run_ssl p env c) (\<lambda>(r, c). Inr (r, c\<lparr>c_wq := wq\<rparr>))"
proof (induction p arbitrary: c)
  case (BioRead len k)
  show ?case
    using BioRead.IH [OF rangeI rangeI]
    by (auto simp: wq_outermost bindR_assoc Let_def split: prod.splits intro!: bindR_cong)
next
  case (BioWrite bytes k)
  show ?case
    using BioWrite.IH [OF rangeI]
    by (auto simp: wq_outermost bindR_assoc split: prod.splits intro!: bindR_cong)
next
  case (SSLVerify chain k)
  show ?case
    using SSLVerify.IH [OF rangeI]
    by (auto simp: bindR_assoc ssl_verify_cert_chain_wq split: prod.splits intro!: bindR_cong)
qed (simp add: wq_outermost)

lemma Write_wq:
  "Write env (c_thread_id c) buf (c\<lparr>c_wq := wq\<rparr>) = with_wq wq (Write env (c_thread_id c) buf c)"
  by (auto simp: Write_def with_ssl_def run_ssl_wq with_wq_def bindR_assoc ShutdownError_wq
      ShutdownRemote_def Shutdown_wq split: option.splits prod.splits intro!: bindR_cong)

lemma OnDrainWriteQueue_loop_calls:
  "OnDrainWriteQueue_loop env wq (c\<lparr>c_wq := wq\<rparr>) = with_wq [] (run_calls env (map CallWrite wq) c)"
proof (induction wq arbitrary: c)
  case (Cons buf wq)
  have "OnDrainWriteQueue_loop env (buf # wq) (c\<lparr>c_wq := buf # wq\<rparr>)
      = bindR (Write env (c_thread_id c) buf c) (\<lambda>c. OnDrainWriteQueue_loop env wq (c\<lparr>c_wq := wq\<rparr>))"
    by (simp add: Write_wq with_wq_def bindR_assoc)
  also have "\<dots> = with_wq [] (run_calls env (map CallWrite (buf # wq)) c)"
    by (simp only: Cons.IH) (simp add: with_wq_def bindR_assoc)
  finally show ?case .
qed simp

lemma OnDrainWriteQueue_calls:
  assumes "c_state c = TLS_CONNECTION_STATE_ESTABLISHED"
  shows "OnDrainWriteQueue env c = with_wq [] (run_calls env (map CallWrite (c_wq c)) (c\<lparr>c_wq_signal := False\<rparr>))"
  using assms OnDrainWriteQueue_loop_calls [of env "c_wq c" "c\<lparr>c_wq_signal := False\<rparr>"]
  by (simp add: OnDrainWriteQueue_def)

text \<open>Draining empties the queue in the established state.\<close>

lemma OnDrainWriteQueue_frame:
  assumes "OnDrainWriteQueue env c = Inr c'"
  shows "keeps c (c'\<lparr>c_wq := c_wq c, c_wq_signal := c_wq_signal c\<rparr>) \<and> \<not> c_wq_signal c'
    \<and> c_wq c' = (if c_state c = TLS_CONNECTION_STATE_ESTABLISHED then [] else c_wq c)"
proof (cases "c_state c = TLS_CONNECTION_STATE_ESTABLISHED")
  case True
  obtain d where d: "run_calls env (map CallWrite (c_wq c)) (c\<lparr>c_wq_signal := False\<rparr>) = Inr d" "c' = d\<lparr>c_wq := []\<rparr>"
    using assms unfolding OnDrainWriteQueue_calls [OF True] with_wq_def by (auto simp: bindR_eq_Inr_iff)
  have "keeps (c\<lparr>c_wq_signal := False\<rparr>) d" by (rule run_calls_keeps [OF d(1)])
  then show ?thesis using d(2) True by (simp add: keeps_def)
next
  case False
  then show ?thesis using assms by (auto simp: OnDrainWriteQueue_def keeps_def)
qed

text \<open>One event: everything but the queue is kept, and the queue but for draining and other threads' writes.\<close>

lemma tls_handle_keeps:
  assumes "tls_enabled ev c" "tls_handle env ev c = Some (Inr c')"
  shows "keeps c (c'\<lparr>c_wq := c_wq c, c_wq_signal := c_wq_signal c\<rparr>)"
proof (cases ev)
  case (EvConnect status read_ok)
  then show ?thesis using OnConnect_keeps [of env status read_ok c c'] assms(2) by (simp add: keeps_def)
next
  case (EvRead nread buf buf_len)
  then show ?thesis using OnRead_keeps [of env nread buf buf_len c c'] assms(2) by (simp add: keeps_def)
next
  case EvDrain
  then show ?thesis using OnDrainWriteQueue_frame [of env c c'] assms(2) by simp
next
  case EvDisconnectRequest
  then have "keeps (c\<lparr>c_dc_signal := False\<rparr>) c'"
    using assms(2) shutdown_keeps(1) by (simp add: OnDisconnectRequest_def)
  then show ?thesis by (simp add: keeps_def)
next
  case (EvWrite us buf)
  then show ?thesis using foreign_Write [of env us buf c c'] assms by (auto simp: keeps_def)
next
  case (EvDisconnect us)
  then show ?thesis using shutdown_keeps(4) [of us c c'] assms(2) by (simp add: keeps_def)
qed

text \<open>The queue and its wake-up change only by draining and by other threads' writes.\<close>

lemma tls_handle_queue_kept:
  assumes "tls_enabled ev c" "tls_handle env ev c = Some (Inr c')" "ev \<noteq> EvDrain" "\<forall>us buf. ev \<noteq> EvWrite us buf"
  shows "c_wq c' = c_wq c \<and> c_wq_signal c' = c_wq_signal c"
proof (cases ev)
  case (EvConnect status read_ok)
  then show ?thesis using OnConnect_keeps [of env status read_ok c c'] assms(2) by (simp add: keeps_def)
next
  case (EvRead nread buf buf_len)
  then show ?thesis using OnRead_keeps [of env nread buf buf_len c c'] assms(2) by (simp add: keeps_def)
next
  case EvDisconnectRequest
  then have "keeps (c\<lparr>c_dc_signal := False\<rparr>) c'"
    using assms(2) shutdown_keeps(1) by (simp add: OnDisconnectRequest_def)
  then show ?thesis by (simp add: keeps_def)
next
  case (EvDisconnect us)
  then show ?thesis using foreign_Disconnect [of us c c'] assms(1,2) by auto
qed (use assms(3,4) in auto)

end
