(* ===== verification/TLSSession.thy ===== *)
theory TLSSession
  imports TLSFrame
begin

section \<open>The session of a TLS connection\<close>

text \<open>
  The abstract session a connection implements, the invariant of the connection while its thread
  runs, and the properties of its callbacks and of the end of its thread.
\<close>

subsection \<open>The abstract session\<close>

text \<open>
  What the connection promises its user: it connects, delivers data, and ends once. A state is a
  phase with what the user has been told; \<open>est\<close> is what is said when the session opens.
\<close>

datatype phase = Connecting | Open | Ended tls_state

inductive session_step ::
    "tls_log list \<Rightarrow> phase \<times> tls_log list \<Rightarrow> phase \<times> tls_log list \<Rightarrow> bool"
  for est where
  opens: "session_step est (Connecting, log) (Open, log @ est)"
| receives: "session_step est (Open, log) (Open, log @ [LogRead bytes])"
| ends: "\<lbrakk>\<forall>why. p \<noteq> Ended why; disconnected why\<rbrakk> \<Longrightarrow> session_step est (p, log) (Ended why, log)"

inductive_cases session_stepE: "session_step est s t"

fun session_phase :: "tls_state \<Rightarrow> phase" where
  "session_phase TLS_CONNECTION_STATE_ESTABLISHED = Open"
| "session_phase TLS_CONNECTION_STATE_DISCONNECTED_ERROR = Ended TLS_CONNECTION_STATE_DISCONNECTED_ERROR"
| "session_phase TLS_CONNECTION_STATE_DISCONNECTED_REMOTE = Ended TLS_CONNECTION_STATE_DISCONNECTED_REMOTE"
| "session_phase TLS_CONNECTION_STATE_DISCONNECTED_LOCAL = Ended TLS_CONNECTION_STATE_DISCONNECTED_LOCAL"
| "session_phase _ = Connecting"

definition session_of :: "'s tls_conn \<Rightarrow> phase \<times> tls_log list" where
  "session_of c = (session_phase (c_state c), visible (c_log c))"

definition est_log :: "'s tls_conn \<Rightarrow> tls_log list" where
  "est_log c = (if c_established_handler c = None then [] else [LogEstablished])"

fun is_read :: "tls_log \<Rightarrow> bool" where
  "is_read (LogRead bytes) \<longleftrightarrow> True"
| "is_read _ \<longleftrightarrow> False"

lemma is_readE: "is_read e \<Longrightarrow> (\<And>b. e = LogRead b \<Longrightarrow> P) \<Longrightarrow> P"
  by (cases e) simp_all

lemma session_phase_disconnected: "disconnected st \<Longrightarrow> session_phase st = Ended st"
  by (cases st) simp_all

lemma session_phase_running: "\<not> disconnected st \<Longrightarrow> session_phase st \<noteq> Ended why"
  by (cases st) simp_all

lemma session_reads: "list_all is_read es \<Longrightarrow> (session_step est)\<^sup>*\<^sup>* (Open, log) (Open, log @ es)"
proof (induction es rule: rev_induct)
  case (snoc e es)
  then obtain b where "e = LogRead b" by (auto elim: is_readE)
  then have "session_step est (Open, log @ es) (Open, log @ es @ [e])"
    using session_step.receives [of est "log @ es" b] by simp
  then show ?case using snoc by (auto intro: rtranclp.rtrancl_into_rtrancl)
qed simp

lemma evolves_session:
  assumes "evolves es c c'" "list_all is_read es" "es = [] \<or> c_state c = TLS_CONNECTION_STATE_ESTABLISHED"
  shows "(session_step est)\<^sup>*\<^sup>* (session_of c) (session_of c')"
proof -
  have r: "(session_step est)\<^sup>*\<^sup>* (session_of c) (session_phase (c_state c), visible (c_log c) @ es)"
    using assms(2,3) session_reads by (auto simp: session_of_def)
  have v: "visible (c_log c') = visible (c_log c) @ es" using assms(1) by (simp add: evolves_def)
  show ?thesis
  proof (cases "c_state c' = c_state c")
    case True
    then show ?thesis using r v by (simp add: session_of_def)
  next
    case False
    then have d: "\<not> disconnected (c_state c)" "disconnected (c_state c')"
      using assms(1) unfolding evolves_def by blast+
    then have "session_step est (session_phase (c_state c), visible (c_log c) @ es) (session_of c')"
      using session_step.ends [of "session_phase (c_state c)" "c_state c'"] session_phase_running [OF d(1)]
      by (simp add: session_of_def session_phase_disconnected v)
    with r show ?thesis by (rule rtranclp.rtrancl_into_rtrancl)
  qed
qed

subsection \<open>The invariant\<close>

definition tls_inv :: "'s tls_conn \<Rightarrow> bool" where
  "tls_inv c \<longleftrightarrow> quiet c \<and> coherent c \<and> 0 < c_thread_id c
     \<and> c_state c \<noteq> TLS_CONNECTION_STATE_INVALID
     \<and> (c_state c = TLS_CONNECTION_STATE_PRE_CONNECT \<longrightarrow> c_connecting c \<and> \<not> c_reading c \<and> c_recv c = c_used c)
     \<and> (c_state c = TLS_CONNECTION_STATE_STARVED_SSL_CONNECT \<or> c_state c = TLS_CONNECTION_STATE_ESTABLISHED
         \<longrightarrow> \<not> c_connecting c \<and> chan_ok c \<and> c_ssl c \<noteq> None)
     \<and> list_all ba_wf (c_wq c)"

lemma tls_inv_live:
  "tls_inv c \<Longrightarrow> c_state c = TLS_CONNECTION_STATE_STARVED_SSL_CONNECT \<or> c_state c = TLS_CONNECTION_STATE_ESTABLISHED
     \<Longrightarrow> live c"
  by (auto simp: tls_inv_def live_def)

lemma live_inv:
  assumes "live c" "c_state c = TLS_CONNECTION_STATE_STARVED_SSL_CONNECT
      \<or> c_state c = TLS_CONNECTION_STATE_ESTABLISHED \<or> disconnected (c_state c)"
    "\<not> c_connecting c" "0 < c_thread_id c" "list_all ba_wf (c_wq c)"
  shows "tls_inv c"
  using assms unfolding tls_inv_def live_def by (elim disjE) auto

lemma evolves_inv:
  assumes "evolves es c c'" "tls_inv c"
    "c_state c = TLS_CONNECTION_STATE_STARVED_SSL_CONNECT \<or> c_state c = TLS_CONNECTION_STATE_ESTABLISHED"
  shows "tls_inv c'"
proof (rule live_inv)
  show "live c'" using evolves_live [OF assms(1) tls_inv_live [OF assms(2,3)]] .
  show "c_state c' = TLS_CONNECTION_STATE_STARVED_SSL_CONNECT
      \<or> c_state c' = TLS_CONNECTION_STATE_ESTABLISHED \<or> disconnected (c_state c')"
    using assms unfolding evolves_def by metis
  show "\<not> c_connecting c'" "0 < c_thread_id c'" "list_all ba_wf (c_wq c')"
    using assms unfolding evolves_def same_setup_def tls_inv_def by metis+
qed

subsection \<open>The callbacks\<close>

lemma Connect_inv:
  assumes "Connect env True True True opts c0 = (e, c)" "quiet c0" "c_wq c0 = []" "c_recv c0 = c_used c0" "0 < self" "c_log c0 = []"
  shows "tls_inv (TLSConnectionThread_start self c) \<and> session_of (TLSConnectionThread_start self c) = (Connecting, [])
    \<and> c_established_handler c = c_established_handler c0"
  using assms
  by (auto simp: Connect_def Let_def TLSConnectionThread_start_def tls_inv_def session_of_def quiet_def coherent_def
      split: option.splits)

text \<open>Opening the session.\<close>

definition establish :: "'s tls_conn \<Rightarrow> 's tls_conn" where
  "establish c = c\<lparr>c_state := TLS_CONNECTION_STATE_ESTABLISHED, c_log := c_log c @ est_log c\<rparr>"

lemma establish_facts:
  assumes "live c" "c_state c = TLS_CONNECTION_STATE_STARVED_SSL_CONNECT"
  shows "live (establish c)" "same_setup c (establish c)" "c_recv (establish c) = c_recv c"
    "c_wq (establish c) = c_wq c" "c_state (establish c) = TLS_CONNECTION_STATE_ESTABLISHED"
    "session_step (est_log c) (session_of c) (session_of (establish c))"
proof -
  show "live (establish c)"
    using assms by (simp add: live_def establish_def coherent_def quiet_def chan_ok_def)
  show "same_setup c (establish c)" "c_recv (establish c) = c_recv c" "c_wq (establish c) = c_wq c"
    "c_state (establish c) = TLS_CONNECTION_STATE_ESTABLISHED"
    by (simp_all add: establish_def same_setup_def)
  have "visible (est_log c) = est_log c" by (simp add: est_log_def)
  then show "session_step (est_log c) (session_of c) (session_of (establish c))"
    using session_step.opens [of "est_log c" "visible (c_log c)"] assms(2)
    by (simp add: session_of_def establish_def)
qed

lemma TransitionToConnectionEstablishedState_returns:
  assumes "ssl_documented env" "live c" "c_state c = TLS_CONNECTION_STATE_STARVED_SSL_CONNECT"
  shows "returns [] (establish c) (TransitionToConnectionEstablishedState env c)"
proof (cases "c_established_handler c")
  case None
  then have "TransitionToConnectionEstablishedState env c = Inr (establish c)"
    by (simp add: TransitionToConnectionEstablishedState_def establish_def est_log_def)
  then show ?thesis using evolves_refl [OF establish_facts(1) [OF assms(2,3)]] by simp
next
  case (Some h)
  then have "TransitionToConnectionEstablishedState env c = run_calls env (h (c_log c)) (establish c)"
    by (simp add: TransitionToConnectionEstablishedState_def establish_def est_log_def)
  then show ?thesis using run_calls_returns [OF assms(1) establish_facts(1) [OF assms(2,3)]] by simp
qed

lemma HandleStarvedConnectState_cases:
  assumes "ssl_documented env" "live c" "c_state c = TLS_CONNECTION_STATE_STARVED_SSL_CONNECT"
  shows "HandleStarvedConnectState env c = Inl HandleClosed
    \<or> (\<exists>c'. HandleStarvedConnectState env c = Inr (False, c') \<and> evolves [] c c')
    \<or> (\<exists>c1 c'. HandleStarvedConnectState env c = Inr (True, c') \<and> evolves [] c c1
          \<and> c_state c1 = TLS_CONNECTION_STATE_STARVED_SSL_CONNECT \<and> evolves [] (establish c1) c')"
proof -
  obtain n err out c1 where r: "with_ssl (SSL_connect env) env c = Inr ((n, err, out), c1)"
    "n \<le> 1" "evolves [] c c1" "c_state c1 = c_state c"
    using with_ssl_spec [OF assms(2), of env "\<lambda>n out. n \<le> 1" "SSL_connect env"] assms(1)
    by (auto simp: ssl_documented_def)
  have l: "live c1" using evolves_live [OF r(3) assms(2)] .
  have st: "c_state c1 = TLS_CONNECTION_STATE_STARVED_SSL_CONNECT" using r(4) assms(3) by simp
  note t = returns_trans [OF r(3)]
  consider "n < 0" "err \<noteq> SSL_ERROR_WANT_READ" "err \<noteq> SSL_ERROR_WANT_WRITE"
    | "n < 0" "err = SSL_ERROR_WANT_READ \<or> err = SSL_ERROR_WANT_WRITE" | "n = 0" | "n = 1"
    using r(2) by linarith
  then show ?thesis
  proof cases
    case 1
    then show ?thesis
      using r(1) t [OF ShutdownError_returns [OF l, of "ErrorFromOpenSSLErrorCode (SSL_error_num env) err"]]
      by (auto simp: HandleStarvedConnectState_def returns_def)
  next
    case 2
    then show ?thesis using r(1,3) by (auto simp: HandleStarvedConnectState_def)
  next
    case 3
    then show ?thesis
      using r(1) t [OF ShutdownRemote_returns [OF l]] by (auto simp: HandleStarvedConnectState_def returns_def)
  next
    case 4
    then show ?thesis
      using r(1,3) st TransitionToConnectionEstablishedState_returns [OF assms(1) l st]
      by (auto simp: HandleStarvedConnectState_def returns_def)
  qed
qed

subsection \<open>What a call of OpenSSL gains\<close>

text \<open>
  All paths through a call satisfy \<open>Q\<close> of the bytes it read from the BIO, its result, the bytes it
  decrypted and its next state.
\<close>

primrec prog_reads ::
    "(cell list \<Rightarrow> int \<Rightarrow> cell list \<Rightarrow> 's \<Rightarrow> bool) \<Rightarrow> cell list \<Rightarrow> ('s, 'h) ssl_prog \<Rightarrow> bool" where
  "prog_reads Q g (SSLReturn n e out s) \<longleftrightarrow> Q g n out s"
| "prog_reads Q g (BioRead len k) \<longleftrightarrow> (\<forall>n got. prog_reads Q (g @ got) (k n got))"
| "prog_reads Q g (BioWrite bytes k) \<longleftrightarrow> (\<forall>n. prog_reads Q g (k n))"
| "prog_reads Q g (SSLVerify chain k) \<longleftrightarrow> (\<forall>r. prog_reads Q g (k r))"

text \<open>
  OpenSSL makes no plain text out of nothing: with \<open>held\<close> the number of bytes it keeps in its state,
  what \<open>SSL_read\<close> returns was held or read, and \<open>SSL_write\<close> holds no more than it reads.
\<close>

definition ssl_conserves :: "('s \<Rightarrow> nat) \<Rightarrow> ('s, 'h, 'q) tls_env \<Rightarrow> bool" where
  "ssl_conserves held env \<longleftrightarrow>
     (\<forall>s len. prog_reads (\<lambda>g n out s'. held s' + (if 0 < n then length out else 0) \<le> held s + length g) []
        (SSL_read env s len))
     \<and> (\<forall>s bytes. prog_reads (\<lambda>g n out s'. held s' \<le> held s + length g) [] (SSL_write env s bytes))"

lemma run_ssl_reads:
  assumes "run_ssl p env c = Inr ((n, err, out), c')" "prog_reads Q g p"
  shows "\<exists>s got. c_ssl c' = Some s \<and> c_used c' = c_used c @ got \<and> Q (g @ got) n out s"
  using assms
proof (induction p arbitrary: c g)
  case (BioRead len k)
  then obtain m buf b where "UVBio_Read (BIO_retry_read env) (c_bio c) (c_malloc len) len = Inr (m, buf, b)"
    by (auto simp: bindR_eq_Inr_iff)
  with BioRead show ?case by (fastforce simp: Let_def)
next
  case (SSLVerify chain k)
  then obtain r d where r: "ssl_verify_cert_chain env chain c = Inr (r, d)"
    "run_ssl (k r) env d = Inr ((n, err, out), c')"
    by (auto simp: bindR_eq_Inr_iff)
  show ?case
    using SSLVerify.IH [OF rangeI r(2)] SSLVerify.prems(2) ssl_verify_cert_chain_frame [OF r(1)] by auto
qed (fastforce simp: bindR_eq_Inr_iff)+

text \<open>The bytes that can still become plain text.\<close>

definition backlog :: "('s \<Rightarrow> nat) \<Rightarrow> 's tls_conn \<Rightarrow> int" where
  "backlog held c = (case c_ssl c of None \<Rightarrow> 0 | Some s \<Rightarrow> int (held s))
     + int (length (c_recv c)) - int (length (c_used c))"

lemma backlog_nonneg: "chan_ok c \<Longrightarrow> 0 \<le> backlog held c"
  by (auto simp: backlog_def chan_ok_def split: option.splits)

lemma Write_backlog:
  assumes "ssl_conserves held env" "Write env (c_thread_id c) buf c = Inr c'" "evolves [] c c'"
  shows "backlog held c' \<le> backlog held c"
proof -
  obtain n err out c1 where w: "with_ssl (\<lambda>s. SSL_write env s (content buf)) env c = Inr ((n, err, out), c1)"
    "c' = c1 \<or> (\<exists>e. ShutdownError e c1 = Inr c') \<or> ShutdownRemote c1 = Inr c'"
    using Write_branches [OF assms(2)] by blast
  obtain s where s: "c_ssl c = Some s" and r: "run_ssl (SSL_write env s (content buf)) env c = Inr ((n, err, out), c1)"
    using with_ssl_run [OF w(1)] by blast
  have c': "c_used c' = c_used c1 \<and> c_ssl c' = c_ssl c1"
    using w(2) ShutdownError_frame ShutdownRemote_frame by blast
  have "prog_reads (\<lambda>g n out s'. held s' \<le> held s + length g) [] (SSL_write env s (content buf))"
    using assms(1) by (simp add: ssl_conserves_def)
  from run_ssl_reads [OF r this] s c' assms(3) show ?thesis by (auto simp: backlog_def evolves_def)
qed

lemma run_calls_backlog:
  assumes "ssl_documented env" "ssl_conserves held env" "live c" "run_calls env calls c = Inr c'"
  shows "backlog held c' \<le> backlog held c"
  using assms(3,4)
proof (induction calls arbitrary: c)
  case (Cons call calls)
  have "\<exists>d. evolves [] c d \<and> backlog held d \<le> backlog held c \<and> run_calls env calls d = Inr c'"
  proof (cases call)
    case (CallWrite buf)
    then obtain d where d: "Write env (c_thread_id c) buf c = Inr d" "run_calls env calls d = Inr c'"
      using Cons.prems(2) by (auto simp: bindR_eq_Inr_iff)
    have "evolves [] c d" using Write_returns [OF assms(1) Cons.prems(1), of buf] d(1) by simp
    then show ?thesis using Write_backlog [OF assms(2) d(1)] d(2) by blast
  next
    case CallDisconnect
    then obtain d where d: "Disconnect (c_thread_id c) c = Inr d" "run_calls env calls d = Inr c'"
      using Cons.prems(2) by (auto simp: bindR_eq_Inr_iff)
    have e: "evolves [] c d" using Disconnect_returns [OF Cons.prems(1)] d(1) by simp
    then show ?thesis using Disconnect_frame [OF d(1)] d(2) by (auto simp: backlog_def evolves_def)
  qed
  then show ?case using Cons.IH evolves_live [OF _ Cons.prems(1)] by fastforce
qed simp

subsection \<open>Reading\<close>

text \<open>What \<open>SSL_read\<close> stored in the buffer is what the handler is given.\<close>

lemma read_buffer:
  assumes "ba_wf p" "0 < n" "n \<le> Capacity p" "int (length out) = n"
  obtains p' where "bindR (Data_write p 0 out) (\<lambda>p. Truncate p n) = Inr p'" "ba_wf p'" "content p' = out"
    "Capacity p' = Capacity p"
proof -
  obtain xs where xs: "ba_buf p = Some xs"
    using assms ba_wf_bufD [OF assms(1)] by (cases "ba_buf p") (auto simp: Capacity_def)
  have len: "int (length xs) = ba_cap p" "ba_cap p \<le> INT_MAX"
    using assms(1) xs by (simp_all add: ba_wf_Some)
  have n: "nat n = length out" using assms(4) by simp
  let ?p = "p\<lparr>ba_buf := Some (out @ drop (length out) xs), ba_len := n\<rparr>"
  have "c_memcpy (Some xs) 0 (Some out) 0 (int (length out)) = Inr (Some (out @ drop (length out) xs))"
    using c_memcpy_ok [of 0 "int (length out)" out 0 xs] assms(3,4) len n by (simp add: Capacity_def)
  then have "bindR (Data_write p 0 out) (\<lambda>p. Truncate p n) = Inr ?p"
    using assms(3,4) xs n by (simp add: Data_write_def Truncate_def assertR_def Capacity_def)
  moreover have "ba_wf ?p"
    using assms len by (simp add: ba_wf_Some Capacity_def)
  moreover have "content ?p = out" using n by (simp add: content_def cells_def)
  ultimately show ?thesis using that by (simp add: Capacity_def)
qed

lemma evolves_read:
  assumes "live c"
  shows "evolves [LogRead b] c (c\<lparr>c_log := c_log c @ [LogRead b]\<rparr>)"
  using assms by (simp add: evolves_def live_def same_setup_def chan_ok_def)

lemma handle_read_returns:
  assumes "ssl_documented env" "live c"
  shows "\<exists>es. list_all is_read es \<and> returns es c
    (case c_read_handler c of None \<Rightarrow> Inr c
     | Some h \<Rightarrow> run_calls env (h (c_log c) p) (c\<lparr>c_log := c_log c @ [LogRead (content p)]\<rparr>))"
proof (cases "c_read_handler c")
  case None
  then show ?thesis using evolves_refl [OF assms(2)] by (intro exI [of _ "[]"]) simp
next
  case (Some h)
  let ?c = "c\<lparr>c_log := c_log c @ [LogRead (content p)]\<rparr>"
  have e: "evolves [LogRead (content p)] c ?c" by (rule evolves_read [OF assms(2)])
  have "returns [] ?c (run_calls env (h (c_log c) p) ?c)"
    by (rule run_calls_returns [OF assms(1) evolves_live [OF e assms(2)]])
  then have "returns [LogRead (content p)] c (run_calls env (h (c_log c) p) ?c)"
    using evolves_trans [OF e] by (auto simp: returns_def)
  then show ?thesis using Some by (intro exI [of _ "[LogRead (content p)]"]) simp
qed

lemma handle_read_backlog:
  assumes "ssl_documented env" "ssl_conserves held env" "live c"
    "(case c_read_handler c of None \<Rightarrow> Inr c
     | Some h \<Rightarrow> run_calls env (h (c_log c) p) (c\<lparr>c_log := c_log c @ [LogRead (content p)]\<rparr>)) = Inr c'"
  shows "backlog held c' \<le> backlog held c"
proof (cases "c_read_handler c")
  case (Some h)
  let ?c = "c\<lparr>c_log := c_log c @ [LogRead (content p)]\<rparr>"
  have "live ?c" by (rule evolves_live [OF evolves_read [OF assms(3)] assms(3)])
  from run_calls_backlog [OF assms(1,2) this, of "h (c_log c) p" c'] assms(4) Some
  show ?thesis by (simp add: backlog_def)
qed (use assms(4) in simp)

lemma ssl_read_backlog:
  assumes "ssl_conserves held env" "with_ssl (\<lambda>s. SSL_read env s len) env c = Inr ((n, err, out), c1)"
    "0 < n" "int (length out) = n" "evolves [] c c1"
  shows "backlog held c1 < backlog held c"
proof -
  obtain s where s: "c_ssl c = Some s" and r: "run_ssl (SSL_read env s len) env c = Inr ((n, err, out), c1)"
    using assms(2) by (auto simp: with_ssl_def split: option.splits)
  have "prog_reads (\<lambda>g n out s'. held s' + (if 0 < n then length out else 0) \<le> held s + length g) []
      (SSL_read env s len)"
    using assms(1) by (simp add: ssl_conserves_def)
  from run_ssl_reads [OF r this] obtain s' got where g: "c_ssl c1 = Some s'" "c_used c1 = c_used c @ got"
    "held s' + length out \<le> held s + length got"
    using assms(3) by auto
  have "0 < length out" using assms(3,4) by linarith
  then have "int (held s') - int (length got) < int (held s)" using g(3) by linarith
  moreover have "c_recv c1 = c_recv c" using assms(5) by (simp add: evolves_def)
  ultimately show ?thesis using s g by (simp add: backlog_def)
qed

lemma ssl_read_spec:
  assumes "ssl_documented env" "live c" "0 \<le> len"
  shows "\<exists>n err out c1. with_ssl (\<lambda>s. SSL_read env s len) env c = Inr ((n, err, out), c1)
    \<and> -1 \<le> n \<and> n \<le> len \<and> (0 < n \<longrightarrow> int (length out) = n) \<and> evolves [] c c1 \<and> live c1"
proof -
  have "prog_all (env_x509 env) (\<lambda>n out. -1 \<le> n \<and> n \<le> len \<and> (0 < n \<longrightarrow> int (length out) = n))
      (SSL_read env s len)" for s
    using assms(1,3) by (simp add: ssl_documented_def)
  from with_ssl_spec [where call = "\<lambda>s. SSL_read env s len", OF assms(2) this]
  show ?thesis using evolves_live [OF _ assms(2)] by blast
qed

lemma OnRead_body_handles:
  assumes "ssl_documented env" "live c" "ba_wf p"
    and r: "with_ssl (\<lambda>s. SSL_read env s (Capacity p)) env c = Inr ((n, err, out), c1)"
      "0 < n" "n \<le> Capacity p" "int (length out) = n" "evolves [] c c1" "live c1"
  shows "OnRead_body f env p c = Some (Inl HandleClosed)
    \<or> (\<exists>p' es c'. OnRead_body f env p c = f env p' c' \<and> ba_wf p' \<and> list_all is_read es
          \<and> evolves es c c' \<and> (\<forall>held. ssl_conserves held env \<longrightarrow> backlog held c' < backlog held c))"
proof -
  obtain p' where p': "bindR (Data_write p 0 out) (\<lambda>p. Truncate p n) = Inr p'" "ba_wf p'"
    using read_buffer [OF assms(3) r(2,3)] r(4) by metis
  obtain es where es: "list_all is_read es" "returns es c1 (case c_read_handler c1 of None \<Rightarrow> Inr c1
     | Some h \<Rightarrow> run_calls env (h (c_log c1) p') (c1\<lparr>c_log := c_log c1 @ [LogRead (content p')]\<rparr>))"
    (is "returns es c1 ?h")
    using handle_read_returns [OF assms(1) r(6)] by blast
  have eq: "OnRead_body f env p c = (case ?h of Inl e \<Rightarrow> Some (Inl e) | Inr c \<Rightarrow> f env p' c)"
    using r(1,2) p'(1) by (simp add: OnRead_body_def)
  have "?h = Inl HandleClosed \<or> (\<exists>c'. ?h = Inr c' \<and> evolves es c c')"
    using returns_trans [OF r(5) es(2)] by (simp add: returns_def)
  then show ?thesis
  proof (elim disjE exE conjE)
    assume "?h = Inl HandleClosed"
    then show ?thesis using eq by simp
  next
    fix c' assume h: "?h = Inr c'" "evolves es c c'"
    have "backlog held c' < backlog held c" if "ssl_conserves held env" for held
      using handle_read_backlog [OF assms(1) that r(6) h(1)] ssl_read_backlog [OF that r(1) r(2)] r(2,4,5) by fastforce
    then show ?thesis using p'(2) es(1) h eq by auto
  qed
qed

lemma OnRead_body_round:
  assumes "ssl_documented env" "live c" "ba_wf p"
  shows "(\<exists>r. OnRead_body f env p c = Some r \<and> returns [] c r)
    \<or> OnRead_body f env p c = Some (Inl HandleClosed)
    \<or> (\<exists>p' es c'. OnRead_body f env p c = f env p' c' \<and> ba_wf p' \<and> list_all is_read es
          \<and> evolves es c c' \<and> (\<forall>held. ssl_conserves held env \<longrightarrow> backlog held c' < backlog held c))"
proof -
  have cap: "0 \<le> Capacity p" using assms(3) by (simp add: ba_wf_def Capacity_def)
  obtain n err out c1 where r: "with_ssl (\<lambda>s. SSL_read env s (Capacity p)) env c = Inr ((n, err, out), c1)"
    "-1 \<le> n" "n \<le> Capacity p" "0 < n \<longrightarrow> int (length out) = n" "evolves [] c c1" "live c1"
    using ssl_read_spec [OF assms(1,2) cap] by blast
  consider "n = -1" | "n = 0" | "0 < n" using r(2) by linarith
  then show ?thesis
  proof cases
    case 1
    then show ?thesis
      using r(1,5) returns_trans [OF r(5) ShutdownError_returns [OF r(6)]]
      by (auto simp: OnRead_body_def)
  next
    case 2
    then show ?thesis
      using r(1) returns_trans [OF r(5) ShutdownRemote_returns [OF r(6)]]
      by (auto simp: OnRead_body_def)
  next
    case 3
    then show ?thesis using OnRead_body_handles [OF assms r(1) 3 r(3) _ r(5,6)] r(4) by blast
  qed
qed

lemma OnRead_loop_terminates:
  assumes "ssl_documented env" "ssl_conserves held env" "live c" "ba_wf p"
  shows "\<exists>r. OnRead_loop env p c = Some r"
  using assms(3,4)
proof (induction "nat (backlog held c)" arbitrary: p c rule: less_induct)
  case less
  from OnRead_body_round [OF assms(1) less.prems, of OnRead_loop] show ?case
  proof (elim disjE exE conjE)
    fix p' es c'
    assume g: "OnRead_body OnRead_loop env p c = OnRead_loop env p' c'" "ba_wf p'" "evolves es c c'"
      "\<forall>held. ssl_conserves held env \<longrightarrow> backlog held c' < backlog held c"
    have l: "live c'" by (rule evolves_live [OF g(3) less.prems(1)])
    then have "0 \<le> backlog held c'" by (intro backlog_nonneg) (simp add: live_def)
    moreover have "backlog held c' < backlog held c" using g(4) assms(2) by blast
    ultimately have "nat (backlog held c') < nat (backlog held c)" by linarith
    from less.hyps [OF this l g(2)] show ?thesis using g(1) by (simp add: OnRead_loop_body [of env p c])
  qed (simp_all add: OnRead_loop_body [of env p c])
qed

lemma OnRead_loop_returns:
  assumes "ssl_documented env" "OnRead_loop env p c = Some r" "live c" "ba_wf p"
  shows "\<exists>es. list_all is_read es \<and> returns es c r"
proof -
  let ?P = "\<lambda>env p c r. ssl_documented env \<longrightarrow> live c \<longrightarrow> ba_wf p
    \<longrightarrow> (\<exists>es. list_all is_read es \<and> returns es c r)"
  have "?P env p c r"
  proof (rule OnRead_loop_induct [where P = ?P, OF _ assms(2)], intro impI)
    fix f env p c r
    assume IH: "\<And>env p c r. f env p c = Some r \<Longrightarrow> ?P env p c r"
      and body: "OnRead_body f env p c = Some r"
      and hyp: "ssl_documented env" "live c" "ba_wf p"
    from OnRead_body_round [OF hyp, of f] show "\<exists>es. list_all is_read es \<and> returns es c r"
    proof (elim disjE exE conjE)
      fix r' assume "OnRead_body f env p c = Some r'" "returns [] c r'"
      then show ?thesis using body by (intro exI [of _ "[]"]) simp
    next
      assume "OnRead_body f env p c = Some (Inl HandleClosed)"
      then show ?thesis using body by (intro exI [of _ "[]"]) (simp add: returns_def)
    next
      fix p' es c'
      assume g: "OnRead_body f env p c = f env p' c'" "ba_wf p'" "list_all is_read es" "evolves es c c'"
        "\<forall>held. ssl_conserves held env \<longrightarrow> backlog held c' < backlog held c"
      have "\<exists>es'. list_all is_read es' \<and> returns es' c' r"
        using IH body g(1,2) hyp(1) evolves_live [OF g(4) hyp(2)] by simp
      then obtain es' where es': "list_all is_read es'" "returns es' c' r" by blast
      then have "returns (es @ es') c r" using evolves_trans [OF g(4)] by (auto simp: returns_def)
      then show ?thesis using g(3) es'(1) by (intro exI [of _ "es @ es'"]) simp
    qed
  qed
  then show ?thesis using assms by blast
qed

subsection \<open>Every callback implements the session\<close>

text \<open>
  A callback failed because handles were closed before, or it kept the invariant and took steps of
  the abstract session.
\<close>

definition step_ok :: "'s tls_conn \<Rightarrow> 's tls_conn res \<Rightarrow> bool" where
  "step_ok c r \<longleftrightarrow> r = Inl HandleClosed
     \<or> (\<exists>c'. r = Inr c' \<and> tls_inv c' \<and> est_log c' = est_log c
           \<and> (session_step (est_log c))\<^sup>*\<^sup>* (session_of c) (session_of c'))"

lemma evolves_est_log: "evolves es c c' \<Longrightarrow> est_log c' = est_log c"
  by (simp add: evolves_def same_setup_def est_log_def)

lemma step_ok_refl: "tls_inv c \<Longrightarrow> step_ok c (Inr c)"
  by (simp add: step_ok_def)

lemma step_ok_same:
  assumes "step_ok c1 r" "session_of c1 = session_of c" "est_log c1 = est_log c"
  shows "step_ok c r"
  using assms by (simp add: step_ok_def)

lemma returns_step_ok:
  assumes "tls_inv c" "c_state c = TLS_CONNECTION_STATE_STARVED_SSL_CONNECT \<or> c_state c = TLS_CONNECTION_STATE_ESTABLISHED"
    "returns es c r" "list_all is_read es" "es = [] \<or> c_state c = TLS_CONNECTION_STATE_ESTABLISHED"
  shows "step_ok c r"
  using assms(3) evolves_inv [OF _ assms(1,2)] evolves_session [OF _ assms(4,5)] evolves_est_log
  unfolding returns_def step_ok_def by blast

lemma establish_inv:
  assumes "tls_inv c" "c_state c = TLS_CONNECTION_STATE_STARVED_SSL_CONNECT"
  shows "tls_inv (establish c)"
proof (rule live_inv)
  note l = tls_inv_live [OF assms(1) disjI1, OF assms(2)]
  note e = establish_facts [OF l assms(2)]
  show "live (establish c)" by (rule e)
  show "c_state (establish c) = TLS_CONNECTION_STATE_STARVED_SSL_CONNECT
    \<or> c_state (establish c) = TLS_CONNECTION_STATE_ESTABLISHED \<or> disconnected (c_state (establish c))"
    using e(5) by simp
  show "\<not> c_connecting (establish c)" "0 < c_thread_id (establish c)" "list_all ba_wf (c_wq (establish c))"
    using assms by (simp_all add: establish_def tls_inv_def)
qed

lemma established_step_ok:
  assumes "tls_inv c" "c_state c = TLS_CONNECTION_STATE_STARVED_SSL_CONNECT" "evolves [] c c1"
    "c_state c1 = TLS_CONNECTION_STATE_STARVED_SSL_CONNECT" "returns es (establish c1) r" "list_all is_read es"
  shows "step_ok c r"
proof -
  have inv: "tls_inv c1" using evolves_inv [OF assms(3,1)] assms(2) by blast
  have l: "live c1" using tls_inv_live [OF inv] assms(4) by blast
  have est: "est_log c1 = est_log c" "est_log (establish c1) = est_log c"
    using evolves_est_log [OF assms(3)] by (simp_all add: establish_def est_log_def)
  have "step_ok (establish c1) r"
    using returns_step_ok [OF establish_inv [OF inv assms(4)] _ assms(5,6)] establish_facts(5) [OF l assms(4)] by blast
  moreover have "(session_step (est_log c))\<^sup>*\<^sup>* (session_of c) (session_of (establish c1))"
    using evolves_session [OF assms(3), of "est_log c"] establish_facts(6) [OF l assms(4)] est(1)
    by (auto intro: rtranclp.rtrancl_into_rtrancl)
  ultimately show ?thesis using est(2) unfolding step_ok_def by (auto intro: rtranclp_trans)
qed

lemma HandleStarvedConnectState_step_ok:
  assumes "ssl_documented env" "tls_inv c" "c_state c = TLS_CONNECTION_STATE_STARVED_SSL_CONNECT"
    "\<And>b c'. r (b, c') = Inr c'"
  shows "step_ok c (bindR (HandleStarvedConnectState env c) r)"
  using HandleStarvedConnectState_cases [OF assms(1) tls_inv_live [OF assms(2) disjI1, OF assms(3)] assms(3)]
proof (elim disjE exE conjE)
  fix c' assume h: "HandleStarvedConnectState env c = Inr (False, c')" "evolves [] c c'"
  then have "returns [] c (Inr c')" by simp
  then show ?thesis using returns_step_ok [OF assms(2) disjI1, OF assms(3)] h(1) assms(4) by simp
next
  fix c1 c'
  assume h: "HandleStarvedConnectState env c = Inr (True, c')" "evolves [] c c1"
    "c_state c1 = TLS_CONNECTION_STATE_STARVED_SSL_CONNECT" "evolves [] (establish c1) c'"
  then have "returns [] (establish c1) (Inr c')" by simp
  then show ?thesis using established_step_ok [OF assms(2,3) h(2,3)] h(1) assms(4) by simp
qed (simp add: step_ok_def)

lemma OnConnect_step_ok:
  assumes "ssl_documented env" "tls_inv c" "c_state c = TLS_CONNECTION_STATE_PRE_CONNECT"
  shows "step_ok c (OnConnect env status read_ok c)"
proof -
  let ?c = "c\<lparr>c_connecting := False\<rparr>"
  have co: "coherent c" "quiet c" "0 < c_thread_id c" "list_all ba_wf (c_wq c)"
    using assms(2) by (simp_all add: tls_inv_def)
  have fail: "step_ok c (ShutdownError e ?c)" for e
  proof -
    have "ShutdownError e ?c = Inr (?c\<lparr>c_err := e, c_state := TLS_CONNECTION_STATE_DISCONNECTED_ERROR,
        c_tcpsock_closed := True, c_reading := False, c_wqasync_closed := True, c_dcasync_closed := True\<rparr>)"
      (is "_ = Inr ?d")
      using Shutdown_open [of "?c\<lparr>c_err := e\<rparr>"] co(1) assms(3) by (simp add: ShutdownError_def coherent_def)
    moreover have "tls_inv ?d" using co assms(3) by (simp add: tls_inv_def coherent_def quiet_def)
    moreover have "session_step (est_log c) (session_of c) (session_of ?d)"
      using session_step.ends [of Connecting TLS_CONNECTION_STATE_DISCONNECTED_ERROR] assms(3)
      by (simp add: session_of_def)
    ultimately show ?thesis by (auto simp: step_ok_def est_log_def)
  qed
  define d where "d = ssl_started env c"
  show ?thesis
  proof (cases "status = -1 \<or> \<not> read_ok")
    case True
    then show ?thesis using fail assms(3) by (auto simp: OnConnect_def assertR_def Let_def)
  next
    case False
    then have eq: "OnConnect env status read_ok c = bindR (HandleStarvedConnectState env d) (\<lambda>(_, c). Inr c)"
      using assms(3) by (simp add: OnConnect_def assertR_def Let_def d_def ssl_started_def peer_ctx_def
          SSL_CTX_new_def X509_STORE_new_def)
    have "uvbio_wf UVBioState_new" "pending UVBioState_new = []" by simp_all
    then have l: "live d"
      using co assms(2,3) by (simp add: d_def ssl_started_def live_def quiet_def chan_ok_def coherent_def tls_inv_def)
    have d: "c_state d = TLS_CONNECTION_STATE_STARVED_SSL_CONNECT" "session_of d = session_of c"
      "est_log d = est_log c"
      using assms(3) by (simp_all add: d_def ssl_started_def session_of_def est_log_def)
    have "tls_inv d" using live_inv [OF l] d(1) co by (simp add: d_def ssl_started_def)
    from HandleStarvedConnectState_step_ok [OF assms(1) this d(1), of "\<lambda>(_, c). Inr c"]
    show ?thesis using step_ok_same [OF _ d(2,3)] by (simp add: eq)
  qed
qed

text \<open>What a read does is fed first, and then shaken hands with or delivered.\<close>

lemma fed_session:
  assumes "tls_inv c" "c_state c = TLS_CONNECTION_STATE_STARVED_SSL_CONNECT \<or> c_state c = TLS_CONNECTION_STATE_ESTABLISHED"
    "bio_ptr (c_bio c) = Some st" "ba_wf b"
  shows "tls_inv (fed b st c)" "live (fed b st c)"
    "session_of (fed b st c) = session_of c" "est_log (fed b st c) = est_log c"
proof -
  have l: "live c" by (rule tls_inv_live [OF assms(1,2)])
  have "uvbio_wf st" "c_recv c = c_used c @ pending st"
    using l assms(3) by (auto simp: live_def chan_ok_def)
  then show ld: "live (fed b st c)"
    using l assms(3,4) by (simp add: fed_def live_def quiet_def chan_ok_def coherent_def)
  have "\<not> c_connecting (fed b st c)" "0 < c_thread_id (fed b st c)" "list_all ba_wf (c_wq (fed b st c))"
    using assms(1,2) by (auto simp: fed_def tls_inv_def)
  then show "tls_inv (fed b st c)" using live_inv [OF ld] assms(2) by auto
  show "session_of (fed b st c) = session_of c" "est_log (fed b st c) = est_log c"
    by (simp_all add: fed_def session_of_def est_log_def)
qed

lemma deliver_returns:
  assumes "ssl_documented env" "live c" "ba_wf (ByteArray_len nread)" "deliver env nread (Inr (True, c)) = Some r"
  shows "\<exists>es. list_all is_read es \<and> returns es c r"
proof (cases "c_state c = TLS_CONNECTION_STATE_ESTABLISHED")
  case True
  then show ?thesis using OnRead_loop_returns [OF assms(1) _ assms(2,3)] assms(4) by auto
next
  case False
  then show ?thesis using assms(4) by (intro exI [of _ "[]"]) (auto simp: evolves_refl [OF assms(2)])
qed

lemma deliver_step_ok:
  assumes "ssl_documented env" "tls_inv d"
    "c_state d = TLS_CONNECTION_STATE_STARVED_SSL_CONNECT \<or> c_state d = TLS_CONNECTION_STATE_ESTABLISHED"
    "ba_wf (ByteArray_len nread)" "deliver env nread (shake env d) = Some r"
  shows "step_ok d r"
proof (cases "c_state d = TLS_CONNECTION_STATE_ESTABLISHED")
  case True
  then show ?thesis
    using deliver_returns [OF assms(1) tls_inv_live [OF assms(2,3)] assms(4)] assms(5)
      returns_step_ok [OF assms(2)] by (auto simp: shake_def)
next
  case False
  then have S: "c_state d = TLS_CONNECTION_STATE_STARVED_SSL_CONNECT" using assms(3) by simp
  have ld: "live d" by (rule tls_inv_live [OF assms(2,3)])
  show ?thesis
    using HandleStarvedConnectState_cases [OF assms(1) ld S]
  proof (elim disjE exE conjE)
    assume "HandleStarvedConnectState env d = Inl HandleClosed"
    then show ?thesis using assms(5) S by (auto simp: shake_def step_ok_def)
  next
    fix c' assume h: "HandleStarvedConnectState env d = Inr (False, c')" "evolves [] d c'"
    then show ?thesis
      using assms(5) S returns_step_ok [OF assms(2) disjI1, OF S, of "[]" r] by (auto simp: shake_def)
  next
    fix c1 c'
    assume h: "HandleStarvedConnectState env d = Inr (True, c')" "evolves [] d c1"
      "c_state c1 = TLS_CONNECTION_STATE_STARVED_SSL_CONNECT" "evolves [] (establish c1) c'"
    have "live c'" using evolves_live [OF h(4)] establish_facts(1) [OF evolves_live [OF h(2) ld] h(3)] by blast
    from deliver_returns [OF assms(1) this assms(4)] obtain es where "list_all is_read es" "returns es c' r"
      using assms(5) S h(1) by (auto simp: shake_def)
    then show ?thesis using established_step_ok [OF assms(2) S h(2,3)] returns_trans [OF h(4)] by blast
  qed
qed

lemma OnRead_step_ok:
  assumes "ssl_documented env" "tls_inv c" "tls_enabled (EvRead nread buf buf_len) c"
    "OnRead env nread buf buf_len c = Some r"
  shows "step_ok c r"
proof (cases "c_state c = TLS_CONNECTION_STATE_STARVED_SSL_CONNECT \<or> c_state c = TLS_CONNECTION_STATE_ESTABLISHED")
  case False
  then show ?thesis using assms(4) step_ok_refl [OF assms(2)] by (auto simp: OnRead_def)
next
  case True
  have l: "live c" by (rule tls_inv_live [OF assms(2) True])
  note shut = returns_step_ok [OF assms(2) True, of "[]", simplified]
  obtain bytes where buf: "buf = Some bytes" "int (length bytes) = buf_len" "nread \<le> buf_len" "-1 \<le> nread"
    "1 \<le> buf_len" "buf_len \<le> INT_MAX"
    using assms(3) by auto
  consider "nread = -1 \<or> nread = 0" | "0 < nread" using buf(4) by linarith
  then show ?thesis
  proof cases
    case 1
    then show ?thesis
      using assms(4) True shut [OF ShutdownRemote_returns [OF l]] shut [OF ShutdownError_returns [OF l]]
      by (auto simp: OnRead_def Let_def split: if_splits)
  next
    case 2
    then have n: "nread \<noteq> -1" "nread \<noteq> 0" by simp_all
    obtain b where b: "ByteArray_buf buf nread buf_len = Inr b" "ba_wf b"
      using ByteArray_buf_cap [of nread buf_len bytes] ByteArray_buf_wf [of buf nread buf_len] buf 2 by auto
    obtain st where st: "bio_ptr (c_bio c) = Some st" using l by (auto simp: live_def chan_ok_def)
    note f = fed_session [OF assms(2) True st b(2)]
    have d: "deliver env nread (shake env (fed b st c)) = Some r"
      using assms(4) unfolding OnRead_eq [OF True n] by (simp add: b(1) st)
    have "step_ok (fed b st c) r"
      using deliver_step_ok [OF assms(1) f(1) _ _ d] True buf 2 by (simp add: ba_wf_len)
    then show ?thesis by (rule step_ok_same [OF _ f(3,4)])
  qed
qed

subsection \<open>The wake-ups\<close>

lemma chan_ok_wq [simp]: "chan_ok (c\<lparr>c_wq := wq\<rparr>) = chan_ok c"
  by (simp add: chan_ok_def)

lemma evolves_wq: "evolves es c c' \<Longrightarrow> evolves es (c\<lparr>c_wq := wq\<rparr>) (c'\<lparr>c_wq := wq\<rparr>)"
  by (simp add: evolves_def same_setup_def all_closed_def)

lemma tls_inv_wq: "tls_inv c \<Longrightarrow> list_all ba_wf wq \<Longrightarrow> tls_inv (c\<lparr>c_wq := wq\<rparr>)"
  by (simp add: tls_inv_def quiet_def coherent_def chan_ok_def)

lemma tls_inv_signals:
  "tls_inv (c\<lparr>c_wq_signal := b\<rparr>) = tls_inv c" "tls_inv (c\<lparr>c_dc_signal := b\<rparr>) = tls_inv c"
  by (simp_all add: tls_inv_def quiet_def coherent_def chan_ok_def)

lemma OnDrainWriteQueue_step_ok:
  assumes "ssl_documented env" "tls_inv c"
  shows "step_ok c (OnDrainWriteQueue env c)"
proof (cases "c_state c = TLS_CONNECTION_STATE_ESTABLISHED")
  case True
  let ?c = "c\<lparr>c_wq_signal := False\<rparr>"
  have inv: "tls_inv ?c" using assms(2) by (simp add: tls_inv_signals)
  have l: "live ?c" using tls_inv_live [OF inv] True by simp
  have "step_ok (?c\<lparr>c_wq := []\<rparr>) (OnDrainWriteQueue env c)"
  proof (rule returns_step_ok [where es = "[]"])
    show "tls_inv (?c\<lparr>c_wq := []\<rparr>)" using tls_inv_wq [OF inv] by simp
    show "returns [] (?c\<lparr>c_wq := []\<rparr>) (OnDrainWriteQueue env c)"
      using run_calls_returns [OF assms(1) l, of "map CallWrite (c_wq c)"] evolves_wq [of "[]" ?c _ "[]"]
      unfolding OnDrainWriteQueue_calls [OF True] returns_def by auto
  qed (use True in simp_all)
  then show ?thesis by (rule step_ok_same) (simp_all add: session_of_def est_log_def)
next
  case False
  then have "OnDrainWriteQueue env c = Inr (c\<lparr>c_wq_signal := False\<rparr>)" by (simp add: OnDrainWriteQueue_def)
  then show ?thesis
    using assms(2) by (simp add: step_ok_def tls_inv_signals session_of_def est_log_def)
qed

text \<open>The handles of a connection that has not ended are open, so a shutdown closes them.\<close>

lemma Shutdown_step_ok:
  assumes "tls_inv c" "disconnected st"
  shows "step_ok c (Shutdown st c)"
proof (cases "disconnected (c_state c)")
  case True
  then show ?thesis using assms(1) by (simp add: step_ok_def Shutdown_twice tls_inv_def)
next
  case False
  have co: "coherent c" using assms(1) by (simp add: tls_inv_def)
  let ?d = "c\<lparr>c_state := st, c_tcpsock_closed := True, c_reading := False,
    c_wqasync_closed := True, c_dcasync_closed := True\<rparr>"
  have st: "st \<noteq> TLS_CONNECTION_STATE_INVALID" "st \<noteq> TLS_CONNECTION_STATE_PRE_CONNECT"
    "st \<noteq> TLS_CONNECTION_STATE_STARVED_SSL_CONNECT" "st \<noteq> TLS_CONNECTION_STATE_ESTABLISHED"
    using assms(2) by auto
  have "tls_inv ?d" using assms st by (simp add: tls_inv_def coherent_def quiet_def)
  moreover have "session_step (est_log c) (session_of c) (session_of ?d)"
    using session_step.ends [of "session_phase (c_state c)" st] session_phase_running [OF False] assms(2)
    by (simp add: session_of_def session_phase_disconnected)
  ultimately show ?thesis using Shutdown_open [OF co False, of st] by (auto simp: step_ok_def est_log_def)
qed

lemma OnDisconnectRequest_step_ok: "tls_inv c \<Longrightarrow> step_ok c (OnDisconnectRequest c)"
  unfolding OnDisconnectRequest_def
  by (rule step_ok_same [OF Shutdown_step_ok]) (simp_all add: tls_inv_signals session_of_def est_log_def)

lemma Disconnect_step_ok: "tls_inv c \<Longrightarrow> us \<noteq> c_thread_id c \<Longrightarrow> step_ok c (Disconnect us c)"
  by (simp add: Disconnect_def step_ok_def tls_inv_signals session_of_def est_log_def)

lemma Write_step_ok:
  assumes "tls_inv c" "us \<noteq> c_thread_id c" "ba_wf buf"
  shows "step_ok c (Write env us buf c)"
proof -
  have "list_all ba_wf (c_wq c @ [buf])" using assms by (simp add: tls_inv_def)
  then have "tls_inv (c\<lparr>c_wq := c_wq c @ [buf]\<rparr>)" by (rule tls_inv_wq [OF assms(1)])
  moreover from this have "tls_inv (c\<lparr>c_wq := c_wq c @ [buf], c_wq_signal := True\<rparr>)"
    by (simp add: tls_inv_signals)
  ultimately show ?thesis
    using assms by (simp add: Write_def ByteArray_copy_wf step_ok_def session_of_def est_log_def)
qed

theorem tls_handle_step_ok:
  assumes "ssl_documented env" "tls_inv c" "tls_enabled ev c" "tls_handle env ev c = Some r"
    "\<And>status read_ok. ev = EvConnect status read_ok \<Longrightarrow> c_state c = TLS_CONNECTION_STATE_PRE_CONNECT"
  shows "step_ok c r"
proof (cases ev)
  case (EvConnect status read_ok)
  then show ?thesis using OnConnect_step_ok [OF assms(1,2)] assms(4,5) by auto
next
  case (EvRead nread buf buf_len)
  show ?thesis
    using OnRead_step_ok [OF assms(1,2) assms(3) [unfolded EvRead]] assms(4) by (simp only: EvRead tls_handle.simps)
next
  case (EvWrite us buf)
  then show ?thesis using Write_step_ok [OF assms(2)] assms(3,4) by auto
next
  case (EvDisconnect us)
  then show ?thesis using Disconnect_step_ok [OF assms(2)] assms(3,4) by auto
qed (use OnDrainWriteQueue_step_ok [OF assms(1,2)] OnDisconnectRequest_step_ok [OF assms(2)] assms(4) in auto)

end
