(* ===== verification/TLSProperties.thy ===== *)
theory TLSProperties
  imports TLSSession
begin

section \<open>Properties of the TLS connection\<close>

text \<open>
  The connection objects a program can make, the invariant of all reachable states, and what
  follows for the user: the session, the final event, the faults that are possible, the write
  queue and the termination of the reading loop. \<open>null_env\<close> is a concrete environment, a cipher
  that leaves the bytes as they are, on which the theorems are applied.
\<close>

subsection \<open>Objects and reachable states\<close>

text \<open>
  A new object with any handlers; that of the chain verification does not disconnect. An object may
  have what an earlier session or attempt leaves behind: its error and the flags \<open>Connect\<close> sets.
\<close>

inductive tls_object :: "'s tls_conn \<Rightarrow> bool" where
  new: "tls_object (TLSConnection_new garbage)"
| verify: "tls_object c \<Longrightarrow> \<forall>log certs. \<not> snd (fn log certs) \<Longrightarrow> tls_object (SetChainVerifyHandler fn c)"
| established: "tls_object c \<Longrightarrow> tls_object (SetEstablishedHandler fn' c)"
| read: "tls_object c \<Longrightarrow> tls_object (SetReadHandler fn'' c)"
| error: "tls_object c \<Longrightarrow> tls_object (SetErrorHandler c)"
| disconnect: "tls_object c \<Longrightarrow> tls_object (SetDisconnectHandler c)"
| left: "tls_object c \<Longrightarrow> tls_object (c\<lparr>c_err := e, c_connecting := b, c_reading := b'\<rparr>)"

lemmas handler_defs = SetChainVerifyHandler_def SetEstablishedHandler_def SetReadHandler_def
  SetErrorHandler_def SetDisconnectHandler_def

lemma tls_object_fresh:
  "tls_object c \<Longrightarrow> quiet c \<and> c_wq c = [] \<and> c_recv c = c_used c \<and> c_log c = []"
  by (induction rule: tls_object.induct) (simp_all add: handler_defs TLSConnection_new_def quiet_def)

lemma tls_object_new: "tls_object c \<Longrightarrow> c_ssl c = None \<and> c_used c = [] \<and> c_log c = []"
  by (induction rule: tls_object.induct) (simp_all add: handler_defs TLSConnection_new_def)

text \<open>A connect callback that is outstanding after the connection has ended fails its assertion.\<close>

lemma OnConnect_not_pre:
  "c_state c \<noteq> TLS_CONNECTION_STATE_PRE_CONNECT \<Longrightarrow> OnConnect env status read_ok c = Inl AssertFail"
  by (simp add: OnConnect_def assertR_def)

lemma tls_step_step_ok:
  assumes "tls_inv c" "tls_step (ssl_documented :: ('s, 'h, 'q) tls_env \<Rightarrow> bool) c ev c'"
  shows "step_ok c (Inr c')"
proof -
  obtain env :: "('s, 'h, 'q) tls_env" where e: "ssl_documented env" "tls_enabled ev c" "tls_handle env ev c = Some (Inr c')"
    using assms(2) by (blast elim: tls_stepE)
  have "c_state c = TLS_CONNECTION_STATE_PRE_CONNECT" if "ev = EvConnect status read_ok" for status read_ok
    using e(3) that OnConnect_not_pre [of c env status read_ok] by fastforce
  then show ?thesis using tls_handle_step_ok [OF e(1) assms(1) e(2,3)] by blast
qed

interpretation tls: simulation "\<lambda>c. tls_inv c \<and> est_log c = est" "tls_step (ssl_documented :: ('s, 'h, 'q) tls_env \<Rightarrow> bool)" session_of
  "session_step est" for est
  by unfold_locales (use tls_step_step_ok in \<open>auto simp: step_ok_def\<close>)

text \<open>A reachable state is the state of the started thread after a run of the loop.\<close>

lemma tls_step_mono:
  "\<forall>env. ok_env env \<longrightarrow> (ssl_documented :: ('s, 'h, 'q) tls_env \<Rightarrow> bool) env \<Longrightarrow> tls_step ok_env c ev c' \<Longrightarrow>
   tls_step (ssl_documented :: ('s, 'h, 'q) tls_env \<Rightarrow> bool) c ev c'"
  by (blast elim: tls_stepE intro: tls_step.step)

lemma tls_reachable_run:
  assumes "\<forall>env. ok_env env \<longrightarrow> (ssl_documented :: ('s, 'h, 'q) tls_env \<Rightarrow> bool) env" "tls_reachable ok_env c0 c"
  shows "\<exists>(env :: ('s, 'h, 'q) tls_env) self opts e c1. 0 < self \<and> Connect env True True True opts c0 = (e, c1)
    \<and> (\<lambda>c c'. \<exists>ev. tls_step (ssl_documented :: ('s, 'h, 'q) tls_env \<Rightarrow> bool) c ev c')\<^sup>*\<^sup>* (TLSConnectionThread_start self c1) c"
  using assms(2)
proof (induction rule: tls_reachable.induct)
  case (start env self opts e c)
  then show ?case using assms(1) by blast
next
  case (step c ev c')
  have "\<exists>ev. tls_step (ssl_documented :: ('s, 'h, 'q) tls_env \<Rightarrow> bool) c ev c'" using tls_step_mono [OF assms(1) step(2)] by blast
  with step.IH show ?case by (blast intro: rtranclp.rtrancl_into_rtrancl)
qed

lemma tls_reachable_inv:
  assumes "\<forall>env. ok_env env \<longrightarrow> (ssl_documented :: ('s, 'h, 'q) tls_env \<Rightarrow> bool) env" "tls_object c0" "tls_reachable ok_env c0 c"
  shows "tls_inv c \<and> est_log c = est_log c0 \<and> (session_step (est_log c0))\<^sup>*\<^sup>* (Connecting, []) (session_of c)"
proof -
  obtain env :: "('s, 'h, 'q) tls_env" and self opts e c1 where s: "0 < self" "Connect env True True True opts c0 = (e, c1)"
    and r: "(\<lambda>c c'. \<exists>ev. tls_step (ssl_documented :: ('s, 'h, 'q) tls_env \<Rightarrow> bool) c ev c')\<^sup>*\<^sup>* (TLSConnectionThread_start self c1) c"
    using tls_reachable_run [OF assms(1,3)] by blast
  have "tls_inv (TLSConnectionThread_start self c1)" "session_of (TLSConnectionThread_start self c1) = (Connecting, [])"
    "est_log (TLSConnectionThread_start self c1) = est_log c0"
    using Connect_inv [OF s(2)] s(1) tls_object_fresh [OF assms(2)]
    by (simp_all add: est_log_def TLSConnectionThread_start_def)
  then show ?thesis using tls.run_sim [OF r, of "est_log c0"] by simp
qed

text \<open>Before the session opens nothing is said; afterwards, its opening and then data.\<close>

lemma session_log:
  assumes "(session_step est)\<^sup>*\<^sup>* (Connecting, []) s"
  shows "(fst s = Connecting \<longrightarrow> snd s = []) \<and> (snd s = [] \<or> (\<exists>rs. snd s = est @ rs \<and> list_all is_read rs))
    \<and> (fst s = Open \<longrightarrow> (\<exists>rs. snd s = est @ rs \<and> list_all is_read rs))"
  using assms
proof (induction rule: rtranclp_induct)
  case (step s t)
  then show ?case
  proof (elim session_stepE)
    fix log bytes assume t: "s = (Open, log)" "t = (Open, log @ [LogRead bytes])"
    then obtain rs where "log = est @ rs" "list_all is_read rs" using step.IH by auto
    then have "log @ [LogRead bytes] = est @ (rs @ [LogRead bytes]) \<and> list_all is_read (rs @ [LogRead bytes])"
      by simp
    then show ?thesis using t(2) by (metis fst_conv snd_conv phase.distinct(1))
  qed auto
qed simp

subsection \<open>A concrete environment\<close>

text \<open>The state of its OpenSSL: whether the chain was accepted, the bytes read, the plain text returned.\<close>

type_synonym null_ssl = "bool \<times> cell list \<times> cell list"

fun null_reads :: "cell list \<Rightarrow> cell list \<Rightarrow> null_ssl \<Rightarrow> null_ssl" where
  "null_reads got out (ok, read_in, plain) = (ok, read_in @ got, plain @ out)"

definition null_env :: "(null_ssl, sample_h, 64 word list) tls_env" where
  "null_env = \<lparr>SSL_new = (\<lambda>ctx. (SSL_VERIFY_PEER \<notin> ctx_verify_mode ctx, [], [])),
     SSL_connect = (\<lambda>s. SSLReturn 1 SSL_ERROR_NONE [] s),
     SSL_read = (\<lambda>s len. BioRead len (\<lambda>n got.
       let out = take (nat len) got
       in if out = [] then SSLReturn (-1) SSL_ERROR_WANT_READ [] (null_reads got [] s)
          else SSLReturn (int (length out)) SSL_ERROR_NONE out (null_reads got out s))),
     SSL_write = (\<lambda>s bytes. BioWrite bytes (\<lambda>n. SSLReturn n SSL_ERROR_SYSCALL [] s)),
     SSL_error_num = (\<lambda>e. 5), BIO_retry_read = 1, env_x509 = sample_api,
     env_default_verify = (\<lambda>store chain. 0), env_crypto = sample_crypto,
     env_crypto_queue = [], env_system_verify = (\<lambda>chain opts. False), env_time = 0,
     env_uv_strerror = (\<lambda>e. ''end of file''), env_uv_last_error = \<lparr>uv_code = 1, uv_sys_errno = 0\<rparr>,
     env_uv_write_ok = True, UV_EOF = 1\<rparr>"

lemma null_env_simps [simp]:
  "SSL_new null_env ctx = (SSL_VERIFY_PEER \<notin> ctx_verify_mode ctx, [], [])"
  "SSL_connect null_env s = SSLReturn 1 SSL_ERROR_NONE [] s"
  "SSL_read null_env s len = BioRead len (\<lambda>n got.
       let out = take (nat len) got
       in if out = [] then SSLReturn (-1) SSL_ERROR_WANT_READ [] (null_reads got [] s)
          else SSLReturn (int (length out)) SSL_ERROR_NONE out (null_reads got out s))"
  "SSL_write null_env s bytes = BioWrite bytes (\<lambda>n. SSLReturn n SSL_ERROR_SYSCALL [] s)"
  "SSL_error_num null_env e = 5" "BIO_retry_read null_env = 1" "env_x509 null_env = sample_api"
  "env_uv_last_error null_env = \<lparr>uv_code = 1, uv_sys_errno = 0\<rparr>"
  "env_system_verify null_env chain opts = False" "env_uv_write_ok null_env" "UV_EOF null_env = 1"
  by (simp_all add: null_env_def)

lemma null_env_documented: "ssl_documented null_env"
  by (auto simp: ssl_documented_def Let_def)

text \<open>An object that echoes what it reads, and the object whose uninitialised members are zero.\<close>

definition zero_conn :: "'s tls_conn" where
  "zero_conn = \<lparr>c_state = TLS_CONNECTION_STATE_INVALID, c_thread_id = 0,
     c_bio = \<lparr>bio_init = 0, bio_num = 0, bio_ptr = None, bio_flags = 0\<rparr>,
     c_ctx = SSL_CTX_new SSLv23_client_method, c_ssl = None, c_wq = [], c_err = Error_new, c_verify_handler = None,
     c_established_handler = None, c_read_handler = None, c_error_handler = False,
     c_disconnect_handler = False, c_nodelay = None, c_tcpsock_closed = False, c_wqasync_closed = False,
     c_dcasync_closed = False, c_connecting = False, c_reading = False, c_wq_signal = False,
     c_dc_signal = False, c_sent = [], c_recv = [], c_used = [], c_log = []\<rparr>"

definition echo_conn :: "null_ssl tls_conn" where
  "echo_conn = SetReadHandler (\<lambda>log b. [CallWrite b]) (SetEstablishedHandler (\<lambda>log. [])
     (SetErrorHandler (SetDisconnectHandler (TLSConnection_new zero_conn))))"

lemma echo_conn_object: "tls_object echo_conn"
  unfolding echo_conn_def by (intro tls_object.intros)

text \<open>A run of the loop's thread through a list of events.\<close>

fun tls_run :: "('s, 'h, 'q) tls_env \<Rightarrow> tls_event list \<Rightarrow> 's tls_conn \<Rightarrow> 's tls_conn option" where
  "tls_run env [] c = Some c"
| "tls_run env (ev # evs) c =
     (if tls_enabled ev c
      then (case tls_handle env ev c of Some (Inr c') \<Rightarrow> tls_run env evs c' | _ \<Rightarrow> None)
      else None)"

lemma tls_run_reachable:
  "tls_run env evs c = Some c' \<Longrightarrow> tls_reachable (\<lambda>e. e = env) c0 c \<Longrightarrow> tls_reachable (\<lambda>e. e = env) c0 c'"
proof (induction evs arbitrary: c)
  case (Cons ev evs)
  then obtain d where d: "tls_enabled ev c" "tls_handle env ev c = Some (Inr d)" "tls_run env evs d = Some c'"
    by (auto split: if_splits option.splits sum.splits)
  have "tls_step (\<lambda>e. e = env) c ev d" using d by (intro tls_step.step) simp_all
  then show ?case using Cons.IH [OF d(3)] Cons.prems(2) by (blast intro: tls_reachable.step)
qed simp

definition echo_start :: "null_ssl tls_conn" where
  "echo_start = TLSConnectionThread_start 1 (snd (Connect null_env True True True None echo_conn))"

lemma echo_start_reachable: "tls_reachable (\<lambda>e. e = null_env) echo_conn echo_start"
  unfolding echo_start_def
  by (rule tls_reachable.start [where env = null_env and e = "fst (Connect null_env True True True None echo_conn)"])
    simp_all

lemmas tls_eval = echo_start_def Connect_def TLSConnectionThread_start_def echo_conn_def zero_conn_def
  handler_defs TLSConnection_new_def OnConnect_def assertR_def Let_def HandleStarvedConnectState_def
  with_ssl_def TransitionToConnectionEstablishedState_def UVBio_Create_def
  SSL_CTX_new_def X509_STORE_new_def peer_ctx_def

definition echo_open :: "null_ssl tls_conn" where
  "echo_open = echo_conn\<lparr>c_state := TLS_CONNECTION_STATE_ESTABLISHED, c_thread_id := 1,
     c_bio := \<lparr>bio_init = 1, bio_num = 0, bio_ptr = Some UVBioState_new, bio_flags = 0\<rparr>,
     c_ctx := peer_ctx, c_ssl := Some (False, [], []), c_reading := True, c_log := [LogEstablished]\<rparr>"

lemma echo_connect: "tls_run null_env [EvConnect 0 True] echo_start = Some echo_open"
  by (simp add: tls_eval echo_open_def)


definition echo_said :: "null_ssl tls_conn" where
  "echo_said = echo_open\<lparr>c_ssl := Some (False, map Some ''abc'', map Some ''abc''),
     c_bio := \<lparr>bio_init = 1, bio_num = 0, bio_ptr = Some UVBioState_new, bio_flags = 1\<rparr>,
     c_sent := map Some ''abc'', c_recv := map Some ''abc'', c_used := map Some ''abc'',
     c_log := [LogEstablished, LogRead (map Some ''abc'')]\<rparr>"

lemmas read_eval = ByteArray_buf_def c_memcpy_def PutNewBuffer_def UVBioState_new_def content_def cells_def
  UVBio_Read_def HasBuffers_def GetBuffer_def Length_def ConstData_def ByteArray_len_def Capacity_def
  Data_write_def Truncate_def Write_def UVBio_Write_def

lemma echo_read: "OnRead null_env 3 (Some (map Some ''abc'')) 3 echo_open = Some (Inr echo_said)"
  apply (simp add: OnRead_def echo_open_def echo_said_def tls_eval read_eval)
  apply (subst OnRead_loop.simps, simp add: tls_eval read_eval)
  apply (subst OnRead_loop.simps, simp add: tls_eval read_eval)
  done

definition echo_done :: "null_ssl tls_conn" where
  "echo_done = echo_said\<lparr>c_state := TLS_CONNECTION_STATE_DISCONNECTED_LOCAL, c_tcpsock_closed := True,
     c_wqasync_closed := True, c_dcasync_closed := True, c_reading := False\<rparr>"

lemma echo_disconnect: "tls_run null_env [EvDisconnect 2, EvDisconnectRequest] echo_said = Some echo_done"
  by (simp add: echo_done_def echo_said_def echo_open_def tls_eval Disconnect_def OnDisconnectRequest_def
      Shutdown_def uv_close_all_def)

lemma echo_said_reachable: "tls_reachable (\<lambda>e. e = null_env) echo_conn echo_said"
proof -
  have o: "tls_reachable (\<lambda>e. e = null_env) echo_conn echo_open"
    by (rule tls_run_reachable [OF echo_connect echo_start_reachable])
  have "tls_enabled (EvRead 3 (Some (map Some ''abc'')) 3) echo_open"
    by (simp add: echo_open_def echo_conn_def handler_defs TLSConnection_new_def zero_conn_def)
  then have "tls_run null_env [EvRead 3 (Some (map Some ''abc'')) 3] echo_open = Some echo_said"
    using echo_read by simp
  from tls_run_reachable [OF this o] show ?thesis .
qed

lemma echo_done_reachable: "tls_reachable (\<lambda>e. e = null_env) echo_conn echo_done"
  by (rule tls_run_reachable [OF echo_disconnect echo_said_reachable])

subsection \<open>Properties\<close>

lemma deliver_terminates:
  assumes "ssl_documented env" "ssl_conserves held env" "live d" "ba_wf (ByteArray_len nread)"
  shows "\<exists>r. deliver env nread (shake env d) = Some r"
proof (cases "c_state d = TLS_CONNECTION_STATE_STARVED_SSL_CONNECT")
  case False
  then show ?thesis using OnRead_loop_terminates [OF assms(1-4)] by (simp add: shake_def)
next
  case S: True
  then show ?thesis
    using HandleStarvedConnectState_cases [OF assms(1,3) S]
  proof (elim disjE exE conjE)
    fix c1 c'
    assume h: "HandleStarvedConnectState env d = Inr (True, c')" "evolves [] d c1"
      "c_state c1 = TLS_CONNECTION_STATE_STARVED_SSL_CONNECT" "evolves [] (establish c1) c'"
    have "live c'"
      by (rule evolves_live [OF h(4) establish_facts(1) [OF evolves_live [OF h(2) assms(3)] h(3)]])
    then show ?thesis using S h(1) OnRead_loop_terminates [OF assms(1,2) _ assms(4)] by (simp add: shake_def)
  qed (simp_all add: shake_def)
qed

lemma OnRead_terminates:
  assumes "ssl_documented env" "ssl_conserves held env" "tls_inv c" "tls_enabled (EvRead nread buf buf_len) c"
  shows "\<exists>r. OnRead env nread buf buf_len c = Some r"
proof (cases "(c_state c = TLS_CONNECTION_STATE_STARVED_SSL_CONNECT \<or> c_state c = TLS_CONNECTION_STATE_ESTABLISHED)
    \<and> 0 < nread")
  case False
  then show ?thesis using assms(4) by (auto simp: OnRead_def Let_def)
next
  case True
  then have run: "c_state c = TLS_CONNECTION_STATE_STARVED_SSL_CONNECT \<or> c_state c = TLS_CONNECTION_STATE_ESTABLISHED"
    and n: "nread \<noteq> -1" "nread \<noteq> 0" by auto
  obtain bytes where buf: "buf = Some bytes" "int (length bytes) = buf_len" "nread \<le> buf_len" "buf_len \<le> INT_MAX"
    using assms(4) by auto
  obtain b where b: "ByteArray_buf buf nread buf_len = Inr b" "ba_wf b"
    using ByteArray_buf_cap [of nread buf_len bytes] ByteArray_buf_wf [of buf nread buf_len] buf True by auto
  obtain st where st: "bio_ptr (c_bio c) = Some st"
    using tls_inv_live [OF assms(3) run] by (auto simp: live_def chan_ok_def)
  have "ba_wf (ByteArray_len nread)" using buf True by (intro ba_wf_len) simp_all
  then show ?thesis
    using deliver_terminates [OF assms(1,2) fed_session(2) [OF assms(3) run st b(2)]]
    unfolding OnRead_eq [OF run n] by (simp add: b(1) st)
qed

text \<open>The final event of a state.\<close>

definition final_log :: "'s tls_conn \<Rightarrow> tls_log list" where
  "final_log c =
     (if c_state c = TLS_CONNECTION_STATE_DISCONNECTED_ERROR
      then (if c_error_handler c then [LogError (c_err c)] else [])
      else if c_disconnect_handler c
      then [LogDisconnect (c_state c = TLS_CONNECTION_STATE_DISCONNECTED_LOCAL)] else [])"

text \<open>C6: In every reachable state the handles are open exactly as long as the connection has not ended,
  and once OpenSSL has been set up the bytes received are those it has read followed by those that
  wait in the BIO.\<close>

theorem TLSConnection_invariant:
  assumes "\<forall>env. ok_env env \<longrightarrow> ssl_documented env" "tls_object c0" "tls_reachable ok_env c0 c"
  shows "c_state c \<noteq> TLS_CONNECTION_STATE_INVALID
    \<and> c_tcpsock_closed c = disconnected (c_state c) \<and> c_wqasync_closed c = disconnected (c_state c)
    \<and> c_dcasync_closed c = disconnected (c_state c)
    \<and> (c_state c = TLS_CONNECTION_STATE_STARVED_SSL_CONNECT \<or> c_state c = TLS_CONNECTION_STATE_ESTABLISHED
        \<longrightarrow> c_ssl c \<noteq> None \<and> (\<exists>st. bio_ptr (c_bio c) = Some st \<and> c_recv c = c_used c @ pending st))"
  using tls_reachable_inv [OF assms] unfolding tls_inv_def coherent_def chan_ok_def by (elim conjE) auto

theorem TLSConnection_invariant_witness:
  "\<exists>st. bio_ptr (c_bio echo_said) = Some st \<and> map Some ''abc'' = c_used echo_said @ pending st"
proof -
  have "c_state echo_said = TLS_CONNECTION_STATE_ESTABLISHED" "c_recv echo_said = map Some ''abc''"
    by (simp_all add: echo_said_def echo_open_def)
  then show ?thesis
    using TLSConnection_invariant [of "\<lambda>e. e = null_env" echo_conn echo_said]
      null_env_documented echo_conn_object echo_said_reachable by auto
qed

text \<open>C7: Every event of the loop is a sequence of steps of the abstract session: it opens once,
  delivers data while it is open, and ends once.\<close>

theorem TLSConnection_refines_session:
  assumes "\<forall>env. ok_env env \<longrightarrow> ssl_documented env" "tls_object c0" "tls_reachable ok_env c0 c"
    "tls_step ok_env c ev c'"
  shows "(session_step (est_log c0))\<^sup>*\<^sup>* (session_of c) (session_of c')"
proof -
  have "tls_inv c \<and> est_log c = est_log c0" using tls_reachable_inv [OF assms(1-3)] by blast
  from tls.step_sim [OF this tls_step_mono [OF assms(1,4)]] show ?thesis by blast
qed

theorem TLSConnection_refines_session_witness:
  "(session_step [LogEstablished])\<^sup>*\<^sup>* (Open, [LogEstablished]) (Open, [LogEstablished, LogRead (map Some ''abc'')])"
proof -
  have en: "tls_enabled (EvRead 3 (Some (map Some ''abc'')) 3) echo_open"
    by (simp add: echo_open_def echo_conn_def handler_defs TLSConnection_new_def zero_conn_def)
  have "tls_step (\<lambda>e. e = null_env) echo_open (EvRead 3 (Some (map Some ''abc'')) 3) echo_said"
    using en echo_read by (intro tls_step.step [of _ null_env]) simp_all
  from TLSConnection_refines_session [OF _ echo_conn_object tls_run_reachable [OF echo_connect echo_start_reachable] this]
  show ?thesis
    using null_env_documented visible_simps(4) visible_simps(2) [of "[LogEstablished]" "[LogRead b]" for b]
    by (simp add: session_of_def echo_said_def echo_open_def est_log_def echo_conn_def handler_defs)
qed

text \<open>C9: When the loop ends, because all handles are closed, the thread forgets its id and the queue
  and reports the one final event that belongs to the state; and all the user was told before is the
  opening of the session, if it opened, followed by data.\<close>

theorem TLSConnectionThread_reports_once:
  assumes "\<forall>env. ok_env env \<longrightarrow> ssl_documented env" "tls_object c0" "tls_reachable ok_env c0 c" "all_closed c"
  shows "\<exists>c' told. TLSConnectionThread_end env True c = Inr c' \<and> c_thread_id c' = 0 \<and> c_wq c' = []
    \<and> visible (c_log c') = told @ final_log c
    \<and> (told = [] \<or> (\<exists>rs. told = est_log c0 @ rs \<and> list_all is_read rs))"
proof -
  have i: "tls_inv c" "(session_step (est_log c0))\<^sup>*\<^sup>* (Connecting, []) (session_of c)"
    using tls_reachable_inv [OF assms(1-3)] by blast+
  have "disconnected (c_state c)" using i(1) assms(4) by (simp add: tls_inv_def coherent_def all_closed_def)
  then consider "c_state c = TLS_CONNECTION_STATE_DISCONNECTED_ERROR"
    | "c_state c = TLS_CONNECTION_STATE_DISCONNECTED_REMOTE" | "c_state c = TLS_CONNECTION_STATE_DISCONNECTED_LOCAL"
    by (cases "c_state c") simp_all
  then have "\<exists>c'. TLSConnectionThread_end env True c = Inr c' \<and> c_thread_id c' = 0 \<and> c_wq c' = []
      \<and> visible (c_log c') = visible (c_log c) @ final_log c"
    by cases (simp_all add: TLSConnectionThread_end_def final_log_def Let_def)
  then show ?thesis using session_log [OF i(2)] by (auto simp: session_of_def)
qed

theorem TLSConnectionThread_reports_once_witness:
  "\<exists>c' told. TLSConnectionThread_end null_env True echo_done = Inr c' \<and> c_thread_id c' = 0 \<and> c_wq c' = []
    \<and> visible (c_log c') = told @ [LogDisconnect True]
    \<and> (told = [] \<or> (\<exists>rs. told = [LogEstablished] @ rs \<and> list_all is_read rs))"
proof -
  have f: "final_log echo_done = [LogDisconnect True]" "all_closed echo_done" "est_log echo_conn = [LogEstablished]"
    by (simp_all add: final_log_def all_closed_def est_log_def echo_done_def echo_said_def echo_open_def
        echo_conn_def handler_defs)
  show ?thesis
    using TLSConnectionThread_reports_once [OF _ echo_conn_object echo_done_reachable f(2), of null_env]
      null_env_documented unfolding f by simp
qed

text \<open>The echo connection, disconnected before its connect callback.\<close>

definition echo_cancelled :: "null_ssl tls_conn" where
  "echo_cancelled = echo_start\<lparr>c_state := TLS_CONNECTION_STATE_DISCONNECTED_LOCAL, c_tcpsock_closed := True,
     c_wqasync_closed := True, c_dcasync_closed := True, c_reading := False\<rparr>"

lemma echo_cancelled_reachable: "tls_reachable (\<lambda>e. e = null_env) echo_conn echo_cancelled"
proof -
  have "tls_run null_env [EvDisconnect 2, EvDisconnectRequest] echo_start = Some echo_cancelled"
    by (simp add: echo_cancelled_def tls_eval Disconnect_def OnDisconnectRequest_def Shutdown_def uv_close_all_def)
  from tls_run_reachable [OF this echo_start_reachable] show ?thesis .
qed

text \<open>C13: A callback of a reachable connection fails in two ways only: it closes handles that are
  closed, or it is the connect callback of a connection that has ended.\<close>

theorem TLSConnection_faults:
  assumes "\<forall>env. ok_env env \<longrightarrow> ssl_documented env" "tls_object c0" "tls_reachable ok_env c0 c"
    "ok_env env" "tls_enabled ev c" "tls_handle env ev c = Some (Inl e)"
  shows "e = HandleClosed
    \<or> e = AssertFail \<and> disconnected (c_state c) \<and> (\<exists>status read_ok. ev = EvConnect status read_ok)"
proof (cases "(\<exists>status read_ok. ev = EvConnect status read_ok) \<and> c_state c \<noteq> TLS_CONNECTION_STATE_PRE_CONNECT")
  case True
  then obtain status read_ok where ev: "ev = EvConnect status read_ok" by blast
  have "tls_inv c" using tls_reachable_inv [OF assms(1-3)] by blast
  moreover have "c_connecting c" using assms(5) ev by simp
  ultimately have "disconnected (c_state c)"
    using True by (cases "c_state c") (simp_all add: tls_inv_def)
  then show ?thesis using assms(6) ev True OnConnect_not_pre [of c env status read_ok] by simp
next
  case False
  have "tls_inv c" using tls_reachable_inv [OF assms(1-3)] by blast
  moreover have "ssl_documented env" using assms(1,4) by blast
  ultimately have "step_ok c (Inl e)" using tls_handle_step_ok [OF _ _ assms(5,6)] False by blast
  then show ?thesis by (simp add: step_ok_def)
qed

theorem TLSConnection_faults_witness: "disconnected (c_state echo_cancelled)"
proof -
  have en: "tls_enabled (EvConnect (-1) True) echo_cancelled"
    by (simp add: echo_cancelled_def tls_eval)
  have f: "tls_handle null_env (EvConnect (-1) True) echo_cancelled = Some (Inl AssertFail)"
    by (simp add: echo_cancelled_def OnConnect_not_pre)
  show ?thesis
    using TLSConnection_faults [OF _ echo_conn_object echo_cancelled_reachable _ en f] null_env_documented by simp
qed

definition two_writes :: "null_ssl tls_conn" where
  "two_writes = echo_open\<lparr>c_wq := [sample_ba ''a'', sample_ba ''b''], c_wq_signal := True\<rparr>"

lemma ba_wf_sample_ba1 [simp]: "ba_wf (sample_ba [x])"
  by (simp add: sample_ba_def ba_wf_Some)

lemma two_writes_run:
  "tls_run null_env [EvWrite 2 (sample_ba ''a''), EvWrite 2 (sample_ba ''b'')] echo_open = Some two_writes"
  by (simp add: two_writes_def echo_open_def echo_conn_def handler_defs TLSConnection_new_def zero_conn_def
      Write_def ByteArray_copy_wf)

lemma two_writes_reachable: "tls_reachable (\<lambda>e. e = null_env) echo_conn two_writes"
  by (rule tls_run_reachable [OF two_writes_run tls_run_reachable [OF echo_connect echo_start_reachable]])

text \<open>An environment in which OpenSSL cannot write any more.\<close>

definition dead_env :: "(null_ssl, sample_h, 64 word list) tls_env" where
  "dead_env = null_env\<lparr>SSL_write := \<lambda>s bytes. SSLReturn (-1) SSL_ERROR_SSL [] s\<rparr>"

lemma dead_env_documented: "ssl_documented dead_env"
  by (auto simp: ssl_documented_def dead_env_def Let_def)

text \<open>A write that fails ends the connection, and fails an assertion when it has ended.\<close>

lemma failed_Write:
  assumes "live d" "\<And>s bytes. prog_all (env_x509 env) (\<lambda>n out. n \<le> 0) (SSL_write env s bytes)"
  shows "if disconnected (c_state d) then Write env (c_thread_id d) b d = Inl HandleClosed
    else \<exists>d'. Write env (c_thread_id d) b d = Inr d' \<and> live d' \<and> disconnected (c_state d')"
proof -
  obtain n err out d1 where r: "with_ssl (\<lambda>s. SSL_write env s (content b)) env d = Inr ((n, err, out), d1)"
    "n \<le> 0" "evolves [] d d1" "c_state d1 = c_state d"
    using with_ssl_spec [where call = "\<lambda>s. SSL_write env s (content b)", OF assms(1,2)] by blast
  have l: "live d1" by (rule evolves_live [OF r(3) assms(1)])
  have "\<exists>e st. Write env (c_thread_id d) b d = Shutdown st (d1\<lparr>c_err := e\<rparr>) \<and> disconnected st"
  proof (cases "n < 0")
    case True
    then show ?thesis
      using r(1) by (intro exI [of _ "ErrorFromOpenSSLErrorCode (SSL_error_num env) err"]
          exI [of _ TLS_CONNECTION_STATE_DISCONNECTED_ERROR]) (simp add: Write_def ShutdownError_def)
  next
    case False
    then show ?thesis
      using r(1,2) by (intro exI [of _ "c_err d1"] exI [of _ TLS_CONNECTION_STATE_DISCONNECTED_REMOTE])
        (simp add: Write_def ShutdownRemote_def)
  qed
  then obtain e st where st: "Write env (c_thread_id d) b d = Shutdown st (d1\<lparr>c_err := e\<rparr>)" "disconnected st"
    by blast
  have co: "coherent (d1\<lparr>c_err := e\<rparr>)" using l by (simp add: live_def)
  show ?thesis
  proof (cases "disconnected (c_state d)")
    case True
    then show ?thesis using st(1) Shutdown_twice [OF co, of st] r(4) by simp
  next
    case False
    then have sh: "Write env (c_thread_id d) b d = Inr (d1\<lparr>c_err := e, c_state := st, c_tcpsock_closed := True,
        c_reading := False, c_wqasync_closed := True, c_dcasync_closed := True\<rparr>)" (is "_ = Inr ?d")
      using st(1) Shutdown_open [OF co, of st] r(4) by simp
    then have "live ?d"
      using Shutdown_returns [OF l st(2), of e] st(1) evolves_live [OF _ l] by simp
    then show ?thesis using sh st(2) False by simp
  qed
qed

text \<open>C28: When OpenSSL cannot write any more and two or more arrays are queued, draining the queue
  closes the handles of the connection twice.\<close>

theorem OnDrainWriteQueue_closes_twice:
  assumes "\<forall>env. ok_env env \<longrightarrow> ssl_documented env" "tls_object c0" "tls_reachable ok_env c0 c"
    "c_state c = TLS_CONNECTION_STATE_ESTABLISHED" "c_wq c = b1 # b2 # bs"
    "\<forall>s bytes. prog_all (env_x509 env) (\<lambda>n out. n \<le> 0) (SSL_write env s bytes)"
  shows "OnDrainWriteQueue env c = Inl HandleClosed"
proof -
  let ?c = "c\<lparr>c_wq_signal := False\<rparr>"
  have "tls_inv ?c" using tls_reachable_inv [OF assms(1-3)] by (simp add: tls_inv_signals)
  then have "live ?c" by (rule tls_inv_live) (simp add: assms(4))
  from failed_Write [OF this, of env b1] obtain d where d: "Write env (c_thread_id ?c) b1 ?c = Inr d" "live d"
    "disconnected (c_state d)"
    using assms(4,6) by auto
  have "run_calls env (map CallWrite (c_wq c)) ?c = Inl HandleClosed"
    using d failed_Write [OF d(2), of env b2] assms(5,6) by simp
  then show ?thesis using OnDrainWriteQueue_calls [OF assms(4), of env] by simp
qed

theorem OnDrainWriteQueue_closes_twice_witness: "OnDrainWriteQueue dead_env two_writes = Inl HandleClosed"
proof -
  have "c_state two_writes = TLS_CONNECTION_STATE_ESTABLISHED"
    "c_wq two_writes = sample_ba ''a'' # sample_ba ''b'' # []"
    by (simp_all add: two_writes_def echo_open_def)
  then show ?thesis
    using null_env_documented
    by (intro OnDrainWriteQueue_closes_twice [OF _ echo_conn_object two_writes_reachable]) (simp_all add: dead_env_def)
qed

text \<open>In the established state draining the queue does what calling \<open>Write\<close> in the loop's thread does for
  each queued array in the order of queueing, and leaves the queue empty; in every other state it
  leaves the queue as it is.\<close>

theorem OnDrainWriteQueue_in_order:
  "OnDrainWriteQueue env c =
     (if c_state c = TLS_CONNECTION_STATE_ESTABLISHED
      then bindR (run_calls env (map CallWrite (c_wq c)) (c\<lparr>c_wq_signal := False\<rparr>)) (\<lambda>c. Inr (c\<lparr>c_wq := []\<rparr>))
      else Inr (c\<lparr>c_wq_signal := False\<rparr>))"
  using OnDrainWriteQueue_calls [of c env] by (simp add: with_wq_def OnDrainWriteQueue_def)

text \<open>C11: Whatever the handlers write, a read callback returns, if OpenSSL makes no plain text out of
  nothing.\<close>

theorem OnRead_returns:
  assumes "\<forall>env. ok_env env \<longrightarrow> ssl_documented env" "tls_object c0" "tls_reachable ok_env c0 c"
    "ok_env env" "ssl_conserves held env" "tls_enabled (EvRead nread buf buf_len) c"
  shows "\<exists>r. OnRead env nread buf buf_len c = Some r"
  using OnRead_terminates [OF _ assms(5) _ assms(6)] tls_reachable_inv [OF assms(1-3)] assms(1,4) by blast

lemma null_env_conserves: "ssl_conserves (\<lambda>s. 0) null_env"
  by (simp add: ssl_conserves_def Let_def)

theorem OnRead_returns_witness: "\<exists>r. OnRead null_env 3 (Some (map Some ''abc'')) 3 echo_open = Some r"
proof (rule OnRead_returns [OF _ echo_conn_object tls_run_reachable [OF echo_connect echo_start_reachable] _
      null_env_conserves])
  show "tls_enabled (EvRead 3 (Some (map Some ''abc'')) 3) echo_open"
    by (simp add: echo_open_def echo_conn_def handler_defs TLSConnection_new_def zero_conn_def)
qed (simp_all add: null_env_documented)

text \<open>C25: A request to disconnect that is served while the connection is being made closes the handles;
  the connect callback, which libuv then calls with an error, fails its assertion.\<close>

theorem Disconnect_while_connecting_asserts:
  assumes "\<forall>env. ok_env env \<longrightarrow> ssl_documented env" "tls_object c0" "tls_reachable ok_env c0 c"
    "c_state c = TLS_CONNECTION_STATE_PRE_CONNECT"
  shows "\<exists>c'. OnDisconnectRequest c = Inr c' \<and> all_closed c' \<and> tls_enabled (EvConnect (-1) read_ok) c'
    \<and> tls_handle env (EvConnect (-1) read_ok) c' = Some (Inl AssertFail)"
proof -
  have i: "coherent c" "c_connecting c"
    using tls_reachable_inv [OF assms(1-3)] assms(4) by (simp_all add: tls_inv_def)
  then have "coherent (c\<lparr>c_dc_signal := False\<rparr>)" by (simp add: coherent_def)
  from Shutdown_open [OF this, of TLS_CONNECTION_STATE_DISCONNECTED_LOCAL] show ?thesis
    using assms(4) i(2) by (simp add: OnDisconnectRequest_def all_closed_def OnConnect_not_pre)
qed

theorem Disconnect_while_connecting_asserts_witness:
  "\<exists>c'. OnDisconnectRequest echo_start = Inr c' \<and> all_closed c' \<and> tls_enabled (EvConnect (-1) True) c'
    \<and> tls_handle null_env (EvConnect (-1) True) c' = Some (Inl AssertFail)"
proof (rule Disconnect_while_connecting_asserts [OF _ echo_conn_object echo_start_reachable])
  show "c_state echo_start = TLS_CONNECTION_STATE_PRE_CONNECT"
    by (simp add: echo_start_def Connect_def TLSConnectionThread_start_def Let_def)
qed (simp add: null_env_documented)

text \<open>An array queued before the session opens stays in the queue: its wake-up is spent.\<close>

lemma queued_write_stuck:
  "\<exists>c. tls_run null_env [EvWrite 2 (sample_ba ''a''), EvDrain, EvConnect 0 True] echo_start = Some c
     \<and> c_state c = TLS_CONNECTION_STATE_ESTABLISHED \<and> c_wq c = [sample_ba ''a''] \<and> \<not> c_wq_signal c"
  by (simp add: tls_eval Write_def ByteArray_copy_wf OnDrainWriteQueue_def)

subsection \<open>The verification of the chain\<close>

text \<open>C22: The verification callback accepts the chain of the server exactly when the user's handler accepts
  the certificates decoded from it, in order, with an empty certificate where the encoding failed;
  without a handler the system's verifier decides, for the fixed host name www.google.com and not for
  the host that was connected to.\<close>

theorem SSLVerifyCallback_decides:
  assumes "\<forall>x \<in> set chain. i2d_X509_fails (env_x509 env) x
      \<or> i2d_X509 (env_x509 env) x \<noteq> [] \<and> int (length (i2d_X509 (env_x509 env) x)) \<le> INT_MAX"
    "certs = map (\<lambda>x. cert_of (env_x509 env)
       (if i2d_X509_fails (env_x509 env) x then ByteArray_null else der_ba (i2d_X509 (env_x509 env) x))
       ByteArray_null) chain"
    "quiet c"
  shows "SSLVerifyCallback env chain c =
    (case c_verify_handler c of
       Some h \<Rightarrow> Inr (if fst (h (c_log c) certs) then 1 else 0, c\<lparr>c_log := c_log c @ [LogVerify certs]\<rparr>)
     | None \<Rightarrow> Inr (if env_system_verify env certs \<lparr>opt_dns_name = ''www.google.com'', opt_time = env_time env\<rparr>
                 then 1 else 0, c))"
proof -
  have l: "SSLVerifyCallback_loop (env_x509 env) chain [] = Inr (Some certs)"
    using SSLVerifyCallback_loop_certs [OF assms(1) [folded encodable_def], of "[]"] assms(2)
    by (simp add: chain_cert_def [abs_def])
  show ?thesis
  proof (cases "c_verify_handler c")
    case None
    then show ?thesis using l by (simp add: SSLVerifyCallback_def Let_def)
  next
    case (Some h)
    obtain ok d where h: "h (c_log c) certs = (ok, d)" by (cases "h (c_log c) certs")
    then have "\<not> d" using assms(3) Some by (metis quiet_def snd_conv)
    then show ?thesis using l Some h by (simp add: SSLVerifyCallback_def)
  qed
qed

text \<open>A chain of three, of which the last cannot be encoded, and a handler that wants just that.\<close>

definition picky_conn :: "null_ssl tls_conn" where
  "picky_conn = SetChainVerifyHandler (\<lambda>log certs. (map (IsNull \<circ> cert_der) certs = [False, False, True], False))
     echo_open"

theorem SSLVerifyCallback_decides_witness:
  "SSLVerifyCallback null_env [SCert, SCA, SName] echo_open = Inr (0, echo_open)
   \<and> (\<exists>certs. SSLVerifyCallback null_env [SCert, SCA, SName] picky_conn
       = Inr (1, picky_conn\<lparr>c_log := [LogEstablished, LogVerify certs]\<rparr>))"
proof -
  have e: "c_verify_handler echo_open = None"
    by (simp add: echo_open_def echo_conn_def handler_defs TLSConnection_new_def)
  have p: "c_verify_handler picky_conn = Some (\<lambda>log certs. (map (IsNull \<circ> cert_der) certs = [False, False, True], False))"
    "c_log picky_conn = [LogEstablished]"
    by (simp_all add: picky_conn_def SetChainVerifyHandler_def echo_open_def)
  define chain where "chain = [SCert, SCA, SName]"
  define certs where "certs = map (\<lambda>x. cert_of (env_x509 null_env)
     (if i2d_X509_fails (env_x509 null_env) x then ByteArray_null else der_ba (i2d_X509 (env_x509 null_env) x))
     ByteArray_null) chain"
  have d: "\<forall>x \<in> set chain. i2d_X509_fails (env_x509 null_env) x
      \<or> i2d_X509 (env_x509 null_env) x \<noteq> [] \<and> int (length (i2d_X509 (env_x509 null_env) x)) \<le> INT_MAX"
    by (simp add: chain_def)
  have n: "map (IsNull \<circ> cert_der) certs = [False, False, True]"
    unfolding certs_def chain_def by (simp add: IsNull_def ByteArray_null_def)
  have q: "quiet echo_open" "quiet picky_conn" unfolding quiet_def e p(1) by simp_all
  have "SSLVerifyCallback null_env chain echo_open = Inr (0, echo_open)"
    unfolding SSLVerifyCallback_decides [OF d certs_def q(1)] e by simp
  moreover have "SSLVerifyCallback null_env chain picky_conn
      = Inr (1, picky_conn\<lparr>c_log := [LogEstablished, LogVerify certs]\<rparr>)"
    unfolding SSLVerifyCallback_decides [OF d certs_def q(2)] p using n by simp
  ultimately show ?thesis unfolding chain_def by blast
qed

end
