(* ===== verification/TLSTrust.thy ===== *)
theory TLSTrust
  imports TLSProperties
begin

section \<open>An established session has been verified\<close>

text \<open>
  The connections with a handler for the chain verification, whatever the handlers do, the
  verification handler's disconnecting included: nothing is reported to the user before that handler
  has approved a chain. Of OpenSSL it assumes \<open>ssl_verifies\<close>.
\<close>

subsection \<open>Approval\<close>

text \<open>What the user's handler has approved: it was called with the log of that time and said yes.\<close>

definition approved :: "(tls_log list \<Rightarrow> x509cert list \<Rightarrow> bool \<times> bool) \<Rightarrow> tls_log list \<Rightarrow> bool" where
  "approved h log \<longleftrightarrow> (\<exists>before certs after. log = before @ LogVerify certs # after \<and> fst (h before certs))"

lemma approved_grows: "approved h log \<Longrightarrow> approved h (log @ es)"
  by (fastforce simp: approved_def)

lemma approved_keeps: "approved h (c_log c) \<Longrightarrow> keeps c c' \<Longrightarrow> approved h (c_log c')"
  using approved_grows by (auto simp: keeps_def)

text \<open>
  All paths through a call satisfy: the next state counts as trusted (\<open>V\<close>) only if the state before
  did, or a verification on the path returned a positive value.
\<close>

primrec prog_trust :: "('s \<Rightarrow> bool) \<Rightarrow> (int \<Rightarrow> 's \<Rightarrow> bool) \<Rightarrow> bool \<Rightarrow> ('s, 'h) ssl_prog \<Rightarrow> bool" where
  "prog_trust V R t (SSLReturn n e out s) \<longleftrightarrow> (V s \<longrightarrow> t) \<and> R n s"
| "prog_trust V R t (BioRead len k) \<longleftrightarrow> (\<forall>n got. prog_trust V R t (k n got))"
| "prog_trust V R t (BioWrite bytes k) \<longleftrightarrow> (\<forall>n. prog_trust V R t (k n))"
| "prog_trust V R t (SSLVerify chain k) \<longleftrightarrow> (\<forall>r. prog_trust V R (t \<or> 0 < r) (k r))"

text \<open>
  A session that \<open>SSL_new\<close> makes from a context with \<open>SSL_VERIFY_PEER\<close> set is not trusted at first; of one
  made from another context nothing is said. A handshake succeeds only on a session that counts as
  trusted, one whose chain has been verified in this call of \<open>SSL_connect\<close> or in an earlier one.
\<close>

definition ssl_verifies :: "('s \<Rightarrow> bool) \<Rightarrow> ('s, 'h, 'q) tls_env \<Rightarrow> bool" where
  "ssl_verifies V env \<longleftrightarrow>
     (\<forall>ctx. SSL_VERIFY_PEER \<in> ctx_verify_mode ctx \<longrightarrow> \<not> V (SSL_new env ctx))
     \<and> (\<forall>s. prog_trust V (\<lambda>n s'. n = 1 \<longrightarrow> V s') (V s) (SSL_connect env s))
     \<and> (\<forall>s len. prog_trust V (\<lambda>n s'. True) (V s) (SSL_read env s len))
     \<and> (\<forall>s bytes. prog_trust V (\<lambda>n s'. True) (V s) (SSL_write env s bytes))"

lemma run_ssl_trust:
  assumes "run_ssl p env c = Inr ((n, err, out), c')" "prog_trust V R t p" "c_verify_handler c = Some h"
    "t \<longrightarrow> approved h (c_log c)" "ctx_cert_verify_callback (c_ctx c)"
  shows "\<exists>s. c_ssl c' = Some s \<and> R n s \<and> (V s \<longrightarrow> approved h (c_log c'))"
  using assms
proof (induction p arbitrary: c t)
  case (BioRead len k)
  then obtain m buf b where "UVBio_Read (BIO_retry_read env) (c_bio c) (c_malloc len) len = Inr (m, buf, b)"
    by (auto simp: bindR_eq_Inr_iff)
  with BioRead show ?case by (fastforce simp: Let_def)
next
  case (SSLVerify chain k)
  then obtain r d where r: "ssl_verify_cert_chain env chain c = Inr (r, d)"
    "run_ssl (k r) env d = Inr ((n, err, out), c')"
    by (auto simp: bindR_eq_Inr_iff)
  have k: "keeps c d" "0 < r \<longrightarrow> (\<exists>certs. c_log d = c_log c @ [LogVerify certs] \<and> fst (h (c_log c) certs))"
    using ssl_verify_cert_chain_frame [OF r(1)] SSLVerify.prems(3,5) by blast+
  have "c_verify_handler d = Some h" using k(1) SSLVerify.prems(3) by (simp add: keeps_def)
  moreover have "t \<or> 0 < r \<longrightarrow> approved h (c_log d)"
    using k SSLVerify.prems(4) approved_keeps by (fastforce simp: approved_def)
  moreover have "ctx_cert_verify_callback (c_ctx d)"
    using ssl_verify_cert_chain_ctx [OF r(1)] SSLVerify.prems(5) by simp
  ultimately show ?case using SSLVerify.IH [OF rangeI r(2), of "t \<or> 0 < r"] SSLVerify.prems(2) by simp
qed (fastforce simp: bindR_eq_Inr_iff)+

subsection \<open>Nothing is reported before the approval\<close>

text \<open>
  A session there is has been verified by none and hands its verification to the callback, and nothing
  has been reported.
\<close>

definition silent :: "('s \<Rightarrow> bool) \<Rightarrow> 's tls_conn \<Rightarrow> bool" where
  "silent V c \<longleftrightarrow> (\<forall>s. c_ssl c = Some s \<longrightarrow> \<not> V s \<and> ctx_cert_verify_callback (c_ctx c)) \<and> c_state c \<noteq> TLS_CONNECTION_STATE_ESTABLISHED
     \<and> visible (c_log c) = []"

definition trust_inv ::
    "('s \<Rightarrow> bool) \<Rightarrow> (tls_log list \<Rightarrow> x509cert list \<Rightarrow> bool \<times> bool) \<Rightarrow> 's tls_conn \<Rightarrow> bool" where
  "trust_inv V h c \<longleftrightarrow> c_verify_handler c = Some h \<and> (approved h (c_log c) \<or> silent V c)"

lemma Shutdown_silent: "Shutdown st c = Inr c' \<Longrightarrow> disconnected st \<Longrightarrow> silent V c \<Longrightarrow> silent V c'"
  by (auto simp: Shutdown_def uv_close_all_def silent_def split: if_splits)

lemma ShutdownError_silent: "ShutdownError e c = Inr c' \<Longrightarrow> silent V c \<Longrightarrow> silent V c'"
  unfolding ShutdownError_def by (erule Shutdown_silent) (simp_all add: silent_def)

lemma ShutdownRemote_silent: "ShutdownRemote c = Inr c' \<Longrightarrow> silent V c \<Longrightarrow> silent V c'"
  unfolding ShutdownRemote_def by (erule Shutdown_silent) simp_all

lemma HandleStarvedConnectState_trust:
  assumes "ssl_verifies V env" "HandleStarvedConnectState env c = Inr (b, c')" "c_verify_handler c = Some h"
    "silent V c"
  shows "approved h (c_log c') \<or> silent V c' \<and> \<not> b"
proof -
  obtain n err out d where w: "with_ssl (SSL_connect env) env c = Inr ((n, err, out), d)"
    and r: "n = 1 \<and> b \<and> TransitionToConnectionEstablishedState env d = Inr c'
      \<or> n \<noteq> 1 \<and> \<not> b \<and> (c' = d \<or> (\<exists>e. ShutdownError e d = Inr c') \<or> ShutdownRemote d = Inr c')"
    using HandleStarvedConnectState_branches [OF assms(2)] by blast
  obtain s where s: "c_ssl c = Some s" and d: "run_ssl (SSL_connect env s) env c = Inr ((n, err, out), d)"
    using with_ssl_run [OF w] by blast
  have v: "\<not> V s" "ctx_cert_verify_callback (c_ctx c)" using assms(4) s by (simp_all add: silent_def)
  have "prog_trust V (\<lambda>n s'. n = 1 \<longrightarrow> V s') (V s) (SSL_connect env s)"
    using assms(1) unfolding ssl_verifies_def by blast
  then have p: "prog_trust V (\<lambda>n s'. n = 1 \<longrightarrow> V s') False (SSL_connect env s)" using v(1) by simp
  have t: "False \<longrightarrow> approved h (c_log c)" by blast
  from run_ssl_trust [OF d p assms(3) t v(2)] obtain s' where t: "c_ssl d = Some s'" "n = 1 \<longrightarrow> V s'"
    "V s' \<longrightarrow> approved h (c_log d)"
    by blast
  note f = run_ssl_frame [OF d]
  show ?thesis
  proof (cases "V s'")
    case True
    have "keeps d c'"
      using r TransitionToConnectionEstablishedState_keeps shutdown_keeps(2,3) keeps_refl by blast
    then show ?thesis using True t(3) approved_keeps by blast
  next
    case False
    then have sd: "silent V d" using t(1) f run_ssl_ctx [OF d] v(2) assms(4) by (auto simp: silent_def)
    have "n \<noteq> 1" using False t(2) by blast
    then show ?thesis using r sd ShutdownError_silent [OF _ sd] ShutdownRemote_silent [OF _ sd] by blast
  qed
qed

lemma OnConnect_trust:
  assumes "ssl_verifies V env" "OnConnect env status read_ok c = Inr c'" "c_verify_handler c = Some h" "silent V c"
  shows "approved h (c_log c') \<or> silent V c'"
proof -
  have "silent V (c\<lparr>c_connecting := False\<rparr>)" "silent V (ssl_started env c)"
    "c_verify_handler (ssl_started env c) = Some h"
    using assms(1,3,4) by (simp_all add: ssl_started_def silent_def ssl_verifies_def)
  then show ?thesis
    using OnConnect_branches [OF assms(2)] ShutdownError_silent HandleStarvedConnectState_trust [OF assms(1)] by blast
qed

lemma OnRead_trust:
  assumes "ssl_verifies V env" "OnRead env nread buf buf_len c = Some (Inr c')" "c_verify_handler c = Some h"
    "silent V c"
  shows "approved h (c_log c') \<or> silent V c'"
proof (cases "c_state c = TLS_CONNECTION_STATE_STARVED_SSL_CONNECT \<and> nread \<noteq> -1 \<and> nread \<noteq> 0")
  case False
  then have "\<not> ((c_state c = TLS_CONNECTION_STATE_STARVED_SSL_CONNECT \<or> c_state c = TLS_CONNECTION_STATE_ESTABLISHED)
    \<and> nread \<noteq> -1 \<and> nread \<noteq> 0)"
    using assms(4) by (simp add: silent_def)
  from OnRead_ends [OF this assms(2)] show ?thesis
    using ShutdownError_silent [OF _ assms(4)] ShutdownRemote_silent [OF _ assms(4)] assms(4) by blast
next
  case True
  then have S: "c_state c = TLS_CONNECTION_STATE_STARVED_SSL_CONNECT" "nread \<noteq> -1" "nread \<noteq> 0" by blast+
  from OnRead_data [OF disjI1 [OF S(1)] S(2,3) assms(2)] obtain b st go_on e
    where e: "shake env (fed b st c) = Inr (go_on, e)"
      "(if go_on \<and> c_state e = TLS_CONNECTION_STATE_ESTABLISHED
        then OnRead_loop env (ByteArray_len nread) e = Some (Inr c') else e = c')"
    by blast
  have h: "HandleStarvedConnectState env (fed b st c) = Inr (go_on, e)" using e(1) S(1) by (simp add: shake_def)
  have f: "silent V (fed b st c)" "c_verify_handler (fed b st c) = Some h"
    using assms(3,4) by (simp_all add: fed_def silent_def)
  have k: "keeps e c'" using e(2) OnRead_loop_keeps by (auto split: if_splits)
  from HandleStarvedConnectState_trust [OF assms(1) h f(2,1)] show ?thesis
    using approved_keeps [OF _ k] e(2) by auto
qed

lemma tls_handle_trust:
  assumes "ssl_verifies V env" "tls_enabled ev c" "tls_handle env ev c = Some (Inr c')" "trust_inv V h c"
  shows "trust_inv V h c'"
proof -
  have h: "c_verify_handler c = Some h" using assms(4) by (simp add: trust_inv_def)
  have k: "keeps c (c'\<lparr>c_wq := c_wq c, c_wq_signal := c_wq_signal c\<rparr>)" by (rule tls_handle_keeps [OF assms(2,3)])
  have *: "approved h (c_log c') \<or> silent V c'" if s: "silent V c"
  proof (cases ev)
    case (EvConnect status read_ok)
    then show ?thesis using OnConnect_trust [OF assms(1) _ h s] assms(3) by simp
  next
    case (EvRead nread buf buf_len)
    then show ?thesis using OnRead_trust [OF assms(1) _ h s] assms(3) by simp
  next
    case EvDrain
    then have "c' = c\<lparr>c_wq_signal := False\<rparr>"
      using assms(3) s by (simp add: OnDrainWriteQueue_def silent_def)
    then show ?thesis using s by (simp add: silent_def)
  next
    case EvDisconnectRequest
    then have "Shutdown TLS_CONNECTION_STATE_DISCONNECTED_LOCAL (c\<lparr>c_dc_signal := False\<rparr>) = Inr c'"
      using assms(3) by (simp add: OnDisconnectRequest_def)
    then have "silent V c'" by (rule Shutdown_silent) (use s in \<open>simp_all add: silent_def\<close>)
    then show ?thesis by blast
  next
    case (EvWrite us buf)
    then show ?thesis using foreign_Write [of env us buf c c'] assms(2,3) s by (auto simp: silent_def)
  next
    case (EvDisconnect us)
    then show ?thesis using foreign_Disconnect [of us c c'] assms(2,3) s by (auto simp: silent_def)
  qed
  have "c_verify_handler c' = Some h" using k h by (simp add: keeps_def)
  moreover have "approved h (c_log c) \<or> silent V c" using assms(4) by (simp add: trust_inv_def)
  moreover have "approved h (c_log c) \<Longrightarrow> approved h (c_log c')" using approved_keeps [OF _ k] by simp
  ultimately show ?thesis unfolding trust_inv_def using * by blast
qed

text \<open>The states of a connection whose handler of the chain verification is \<open>h\<close>.\<close>

lemma tls_reachable_trust:
  assumes "\<forall>env. ok_env env \<longrightarrow> ssl_verifies V env" "c_verify_handler c0 = Some h" "c_ssl c0 = None"
    "c_log c0 = []" "tls_reachable ok_env c0 c"
  shows "trust_inv V h c"
  using assms(5)
proof (induction rule: tls_reachable.induct)
  case (start env self opts e c)
  then show ?case
    using assms(2-4) by (auto simp: Connect_def Let_def TLSConnectionThread_start_def trust_inv_def silent_def
        split: option.splits)
next
  case (step c ev c')
  then show ?case using tls_handle_trust assms(1) by (blast elim: tls_stepE)
qed

text \<open>C2: Whatever the handlers do, an established connection, and one that has reported anything but
  verifications, has had a chain approved by the user's verification handler.\<close>

theorem TLSConnection_verified:
  assumes "\<forall>env. ok_env env \<longrightarrow> ssl_verifies V env" "c_verify_handler c0 = Some h" "c_ssl c0 = None"
    "c_log c0 = []" "tls_reachable ok_env c0 c"
  shows "approved h (c_log c) \<or> c_state c \<noteq> TLS_CONNECTION_STATE_ESTABLISHED \<and> visible (c_log c) = []"
  using tls_reachable_trust [OF assms] by (auto simp: trust_inv_def silent_def)

text \<open>A server that shows one certificate, and a handler that accepts any chain that is not empty.\<close>

definition strict_env :: "(null_ssl, sample_h, 64 word list) tls_env" where
  "strict_env = null_env\<lparr>SSL_connect := \<lambda>s. SSLVerify [SCert]
     (\<lambda>r. if 0 < r then SSLReturn 1 SSL_ERROR_NONE [] (True, snd s) else SSLReturn (-1) SSL_ERROR_SSL [] s)\<rparr>"

definition strict_handler :: "tls_log list \<Rightarrow> x509cert list \<Rightarrow> bool \<times> bool" where
  "strict_handler log certs = (certs \<noteq> [], False)"

definition strict_conn :: "null_ssl tls_conn" where
  "strict_conn = SetChainVerifyHandler strict_handler (SetEstablishedHandler (\<lambda>log. []) (TLSConnection_new zero_conn))"

definition strict_start :: "null_ssl tls_conn" where
  "strict_start = TLSConnectionThread_start 1 (snd (Connect strict_env True True True None strict_conn))"

lemma strict_env_verifies: "ssl_verifies fst strict_env"
  by (simp add: ssl_verifies_def strict_env_def Let_def)

lemma strict_connect:
  "\<exists>c. tls_run strict_env [EvConnect 0 True] strict_start = Some c
     \<and> c_state c = TLS_CONNECTION_STATE_ESTABLISHED"
  by (simp add: strict_start_def strict_conn_def strict_env_def strict_handler_def tls_eval
      ssl_verify_cert_chain_def SSLVerifyCallback_def encodable_def SSLVerifyCallback_loop_certs del: SSLVerifyCallback_loop.simps)

theorem TLSConnection_verified_witness:
  "\<exists>c. tls_run strict_env [EvConnect 0 True] strict_start = Some c \<and> approved strict_handler (c_log c)"
proof -
  obtain c where c: "tls_run strict_env [EvConnect 0 True] strict_start = Some c"
    "c_state c = TLS_CONNECTION_STATE_ESTABLISHED"
    using strict_connect by blast
  have "tls_reachable (\<lambda>e. e = strict_env) strict_conn strict_start"
    unfolding strict_start_def
    by (rule tls_reachable.start [where env = strict_env
          and e = "fst (Connect strict_env True True True None strict_conn)"]) simp_all
  then have r: "tls_reachable (\<lambda>e. e = strict_env) strict_conn c" by (rule tls_run_reachable [OF c(1)])
  have o: "c_verify_handler strict_conn = Some strict_handler" "c_ssl strict_conn = None" "c_log strict_conn = []"
    by (simp_all add: strict_conn_def handler_defs TLSConnection_new_def)
  have "\<forall>env. env = strict_env \<longrightarrow> ssl_verifies fst env" using strict_env_verifies by blast
  from TLSConnection_verified [OF this o r] c show ?thesis by blast
qed

subsection \<open>A verification handler that disconnects\<close>

lemma Shutdown_coherent:
  assumes "Shutdown st c = Inr c'" "disconnected st"
  shows "coherent c'"
  using assms by (auto simp: Shutdown_def uv_close_all_def coherent_def split: if_splits)

lemma SSLVerifyCallback_coherent:
  assumes "SSLVerifyCallback env chain c = Inr (r, c')" "coherent c"
  shows "coherent c'"
  using SSLVerifyCallback_branches [OF assms(1)]
proof (elim disjE exE conjE)
  fix e assume "ShutdownError e c = Inr c'"
  then show ?thesis unfolding ShutdownError_def by (rule Shutdown_coherent) simp
next
  fix h certs ok d
  let ?c = "c\<lparr>c_log := c_log c @ [LogVerify certs]\<rparr>"
  assume "(if d then Disconnect (c_thread_id c) ?c else Inr ?c) = Inr c'"
  moreover have "coherent ?c" using assms(2) by (simp add: coherent_def)
  moreover have "Shutdown TLS_CONNECTION_STATE_DISCONNECTED_LOCAL ?c = Inr c' \<Longrightarrow> coherent c'"
    by (erule Shutdown_coherent) simp
  ultimately show ?thesis by (auto simp: Disconnect_def split: if_splits)
qed (use assms(2) in simp)

lemma ssl_verify_cert_chain_coherent:
  "ssl_verify_cert_chain env chain c = Inr (r, c') \<Longrightarrow> coherent c \<Longrightarrow> coherent c'"
  using SSLVerifyCallback_coherent by (auto simp: ssl_verify_cert_chain_def split: if_splits)

lemma run_ssl_coherent:
  "run_ssl p env c = Inr ((n, err, out), c') \<Longrightarrow> coherent c \<Longrightarrow> coherent c'"
proof (induction p arbitrary: c)
  case (SSLReturn m e o s)
  then show ?case by (auto simp: coherent_def)
next
  case (BioRead len k)
  then obtain m buf b where "UVBio_Read (BIO_retry_read env) (c_bio c) (c_malloc len) len = Inr (m, buf, b)"
    by (auto simp: bindR_eq_Inr_iff)
  moreover have "coherent (c\<lparr>c_bio := b, c_used := u\<rparr>)" for u using BioRead.prems(2) by (simp add: coherent_def)
  ultimately show ?case using BioRead.IH [OF rangeI rangeI] BioRead.prems(1) by (simp add: Let_def)
next
  case (BioWrite bytes k)
  then obtain m w where "UVBio_Write (env_uv_write_ok env \<and> \<not> c_tcpsock_closed c) (c_bio c) bytes
      (int (length bytes)) = Inr (m, w)"
    by (auto simp: bindR_eq_Inr_iff)
  moreover have "coherent (c\<lparr>c_sent := u\<rparr>)" for u using BioWrite.prems(2) by (simp add: coherent_def)
  ultimately show ?case using BioWrite.IH [OF rangeI] BioWrite.prems(1) by simp
next
  case (SSLVerify chain k)
  then obtain r d where r: "ssl_verify_cert_chain env chain c = Inr (r, d)"
    "run_ssl (k r) env d = Inr ((n, err, out), c')"
    by (auto simp: bindR_eq_Inr_iff)
  show ?case by (rule SSLVerify.IH [OF rangeI r(2) ssl_verify_cert_chain_coherent [OF r(1) SSLVerify.prems(2)]])
qed

text \<open>
  A connection whose handles are closed can only be left as it is: whatever would shut it down closes
  a handle a second time, so what returns has not tried to.
\<close>

definition still_closed :: "'s tls_conn \<Rightarrow> 's tls_conn \<Rightarrow> bool" where
  "still_closed c c' \<longleftrightarrow> (all_closed c \<longrightarrow> all_closed c' \<and> c_state c' = c_state c)"

lemma still_closed_refl [simp, intro]: "still_closed c c"
  by (simp add: still_closed_def)

lemma still_closed_trans: "still_closed a b \<Longrightarrow> still_closed b c \<Longrightarrow> still_closed a c"
  by (simp add: still_closed_def)

lemma shutdown_still_closed:
  "Shutdown st c = Inr c' \<Longrightarrow> still_closed c c'" "ShutdownError e c = Inr c' \<Longrightarrow> still_closed c c'"
  "ShutdownRemote c = Inr c' \<Longrightarrow> still_closed c c'" "Disconnect (c_thread_id c) c = Inr c' \<Longrightarrow> still_closed c c'"
  by (auto simp: still_closed_def all_closed_def ShutdownError_def ShutdownRemote_def Disconnect_def Shutdown_def
      uv_close_all_def split: if_splits)

lemma ssl_verify_cert_chain_still_closed:
  assumes "ssl_verify_cert_chain env chain c = Inr (r, c')"
  shows "still_closed c c'"
proof (cases "ctx_cert_verify_callback (c_ctx c)")
  case True
  then have "SSLVerifyCallback env chain c = Inr (r, c')" using assms by (simp add: ssl_verify_cert_chain_def)
  from SSLVerifyCallback_branches [OF this] show ?thesis
  proof (elim disjE exE conjE)
    fix h certs ok d
    let ?c = "c\<lparr>c_log := c_log c @ [LogVerify certs]\<rparr>"
    assume "(if d then Disconnect (c_thread_id c) ?c else Inr ?c) = Inr c'"
    then have "still_closed ?c c'"
      using shutdown_still_closed(4) [of ?c c'] by (cases d) (simp_all add: still_closed_def)
    then show ?thesis by (simp add: still_closed_def all_closed_def)
  qed (use shutdown_still_closed(2) in \<open>auto simp: still_closed_def\<close>)
next
  case False
  then show ?thesis using assms by (simp add: ssl_verify_cert_chain_def still_closed_def)
qed

lemma run_ssl_still_closed: "run_ssl p env c = Inr (x, c') \<Longrightarrow> still_closed c c'"
proof (induction p arbitrary: c)
  case (SSLReturn m e o s)
  then show ?case by (auto simp: still_closed_def all_closed_def)
next
  case (BioRead len k)
  then obtain m buf b where "UVBio_Read (BIO_retry_read env) (c_bio c) (c_malloc len) len = Inr (m, buf, b)"
    by (auto simp: bindR_eq_Inr_iff)
  with BioRead show ?case by (fastforce simp: Let_def still_closed_def all_closed_def)
next
  case (BioWrite bytes k)
  then obtain m w where "UVBio_Write (env_uv_write_ok env \<and> \<not> c_tcpsock_closed c) (c_bio c) bytes
      (int (length bytes)) = Inr (m, w)"
    by (auto simp: bindR_eq_Inr_iff)
  with BioWrite show ?case by (fastforce simp: still_closed_def all_closed_def)
next
  case (SSLVerify chain k)
  then obtain r d where r: "ssl_verify_cert_chain env chain c = Inr (r, d)" "run_ssl (k r) env d = Inr (x, c')"
    by (auto simp: bindR_eq_Inr_iff)
  show ?case
    by (rule still_closed_trans [OF ssl_verify_cert_chain_still_closed [OF r(1)] SSLVerify.IH [OF rangeI r(2)]])
qed

lemma Write_still_closed:
  assumes "Write env (c_thread_id c) buf c = Inr c'"
  shows "still_closed c c'"
proof -
  obtain n err out d where d: "with_ssl (\<lambda>s. SSL_write env s (content buf)) env c = Inr ((n, err, out), d)"
    "c' = d \<or> (\<exists>e. ShutdownError e d = Inr c') \<or> ShutdownRemote d = Inr c'"
    using Write_branches [OF assms] by blast
  have "still_closed c d" using with_ssl_run [OF d(1)] run_ssl_still_closed by blast
  moreover have "still_closed d c'" using d(2) shutdown_still_closed(2,3) by blast
  ultimately show ?thesis by (rule still_closed_trans)
qed

lemma run_calls_still_closed: "run_calls env calls c = Inr c' \<Longrightarrow> still_closed c c'"
proof (induction calls arbitrary: c)
  case (Cons call calls)
  obtain d where "still_closed c d" "run_calls env calls d = Inr c'"
    using Cons.prems by (cases call) (auto simp: bindR_eq_Inr_iff dest: Write_still_closed shutdown_still_closed(4))
  then show ?case using Cons.IH still_closed_trans by blast
qed (simp add: still_closed_def)

text \<open>Establishing a session on a closed connection: if it returns, the connection counts as established.\<close>

lemma established_while_closed:
  assumes "TransitionToConnectionEstablishedState env c = Inr c'" "all_closed c"
  shows "c_state c' = TLS_CONNECTION_STATE_ESTABLISHED \<and> all_closed c'"
proof (cases "c_established_handler c")
  case None
  then show ?thesis using assms by (auto simp: TransitionToConnectionEstablishedState_def all_closed_def)
next
  case (Some g)
  let ?c = "c\<lparr>c_state := TLS_CONNECTION_STATE_ESTABLISHED, c_log := c_log c @ [LogEstablished]\<rparr>"
  have "still_closed ?c c'"
    using run_calls_still_closed [of env "g (c_log c)" ?c c'] assms(1) Some
    by (simp add: TransitionToConnectionEstablishedState_def)
  then show ?thesis using assms(2) by (simp add: still_closed_def all_closed_def)
qed

text \<open>C26: When the verification handler has disconnected during a step of the handshake, the step returns
  properly only if OpenSSL then wants more data. If the handshake fails, as it does when the handler
  has rejected the chain, the handles are closed a second time. If it succeeds, the state is set to
  established although the connection is closed, whatever the established handler does: without one
  the step returns so; with one it either returns so or fails, and never leaves the connection in
  another state; and from such a connection the thread ends in \<open>NotReached\<close>.\<close>

theorem verify_handler_disconnects:
  assumes "coherent c" "with_ssl (SSL_connect env) env c = Inr ((n, err, out), d)" "disconnected (c_state d)"
  shows "(n < 0 \<and> (err = SSL_ERROR_WANT_READ \<or> err = SSL_ERROR_WANT_WRITE)
      \<longrightarrow> HandleStarvedConnectState env c = Inr (False, d))
    \<and> (n = 0 \<or> n < 0 \<and> err \<noteq> SSL_ERROR_WANT_READ \<and> err \<noteq> SSL_ERROR_WANT_WRITE
      \<longrightarrow> HandleStarvedConnectState env c = Inl HandleClosed)
    \<and> (n = 1 \<longrightarrow>
        (c_established_handler c = None
          \<longrightarrow> HandleStarvedConnectState env c = Inr (True, d\<lparr>c_state := TLS_CONNECTION_STATE_ESTABLISHED\<rparr>))
        \<and> (\<forall>b c'. HandleStarvedConnectState env c = Inr (b, c') \<longrightarrow>
             b \<and> c_state c' = TLS_CONNECTION_STATE_ESTABLISHED \<and> all_closed c'
             \<and> TLSConnectionThread_end env True c' = Inl NotReachedTrap))
    \<and> (n > 1 \<longrightarrow> HandleStarvedConnectState env c = Inl NotReachedTrap)"
proof -
  obtain s where r: "run_ssl (SSL_connect env s) env c = Inr ((n, err, out), d)"
    using with_ssl_run [OF assms(2)] by blast
  have co: "coherent d" by (rule run_ssl_coherent [OF r assms(1)])
  then have ce: "coherent (d\<lparr>c_err := e\<rparr>)" for e by simp
  have sh: "ShutdownError e d = Inl HandleClosed" "ShutdownRemote d = Inl HandleClosed" for e
    using Shutdown_twice [OF ce [of e]] Shutdown_twice [OF co] assms(3)
    by (simp_all add: ShutdownError_def ShutdownRemote_def)
  have eh: "c_established_handler d = c_established_handler c"
    using run_ssl_frame [OF r] by (simp add: keeps_def)
  have cl: "all_closed d" using co assms(3) by (simp add: coherent_def all_closed_def)
  have t: "b \<and> c_state c' = TLS_CONNECTION_STATE_ESTABLISHED \<and> all_closed c'
      \<and> TLSConnectionThread_end env True c' = Inl NotReachedTrap"
    if n: "n = 1" and h: "HandleStarvedConnectState env c = Inr (b, c')" for b c'
  proof -
    have b: "b" "TransitionToConnectionEstablishedState env d = Inr c'"
      using n h assms(2) by (auto simp: HandleStarvedConnectState_def bindR_eq_Inr_iff)
    then show ?thesis
      using established_while_closed [OF b(2) cl] by (simp add: TLSConnectionThread_end_def NotReached_def)
  qed
  have e: "HandleStarvedConnectState env c = Inr (True, d\<lparr>c_state := TLS_CONNECTION_STATE_ESTABLISHED\<rparr>)"
    if "n = 1" "c_established_handler c = None"
    using that assms(2) eh by (simp add: HandleStarvedConnectState_def TransitionToConnectionEstablishedState_def)
  have "n > 1 \<longrightarrow> HandleStarvedConnectState env c = Inl NotReachedTrap"
    "n < 0 \<and> (err = SSL_ERROR_WANT_READ \<or> err = SSL_ERROR_WANT_WRITE)
      \<longrightarrow> HandleStarvedConnectState env c = Inr (False, d)"
    "n = 0 \<or> n < 0 \<and> err \<noteq> SSL_ERROR_WANT_READ \<and> err \<noteq> SSL_ERROR_WANT_WRITE
      \<longrightarrow> HandleStarvedConnectState env c = Inl HandleClosed"
    using assms(2) sh by (auto simp: HandleStarvedConnectState_def NotReached_def)
  with t e show ?thesis by blast
qed

text \<open>A handler that disconnects whatever the chain, rejecting it or accepting it, and a handler for the session.\<close>

definition fleeing_conn :: "bool \<Rightarrow> null_ssl tls_conn" where
  "fleeing_conn ok = SetChainVerifyHandler (\<lambda>log certs. (ok, True)) (SetEstablishedHandler (\<lambda>log. [])
     (TLSConnection_new zero_conn))"

definition fleeing_start :: "bool \<Rightarrow> null_ssl tls_conn" where
  "fleeing_start ok = ssl_started strict_env
     (TLSConnectionThread_start 1 (snd (Connect strict_env True True True None (fleeing_conn ok))))"

lemma fleeing_coherent: "coherent (fleeing_start ok)"
  by (simp add: ssl_started_def fleeing_start_def fleeing_conn_def tls_eval coherent_def)

lemma fleeing_shakes:
  "\<exists>d out. with_ssl (SSL_connect strict_env) strict_env (fleeing_start False) = Inr ((-1, SSL_ERROR_SSL, out), d)
     \<and> disconnected (c_state d)"
  "\<exists>d out. with_ssl (SSL_connect strict_env) strict_env (fleeing_start True) = Inr ((1, SSL_ERROR_NONE, out), d)
     \<and> disconnected (c_state d)"
  "\<exists>c. HandleStarvedConnectState strict_env (fleeing_start True) = Inr (True, c)
     \<and> (\<exists>certs. c_log c = [LogVerify certs, LogEstablished])"
  by (simp_all add: fleeing_start_def fleeing_conn_def ssl_started_def strict_env_def tls_eval
      ssl_verify_cert_chain_def SSLVerifyCallback_def encodable_def SSLVerifyCallback_loop_certs Disconnect_def
      Shutdown_def uv_close_all_def del: SSLVerifyCallback_loop.simps)

theorem verify_handler_disconnects_witness:
  "HandleStarvedConnectState strict_env (fleeing_start False) = Inl HandleClosed
   \<and> (\<exists>c. HandleStarvedConnectState strict_env (fleeing_start True) = Inr (True, c)
        \<and> (\<exists>certs. c_log c = [LogVerify certs, LogEstablished])
        \<and> c_state c = TLS_CONNECTION_STATE_ESTABLISHED \<and> all_closed c
        \<and> TLSConnectionThread_end strict_env True c = Inl NotReachedTrap)"
proof -
  obtain d out where f: "with_ssl (SSL_connect strict_env) strict_env (fleeing_start False) = Inr ((-1, SSL_ERROR_SSL, out), d)"
    "disconnected (c_state d)"
    using fleeing_shakes(1) by blast
  obtain e out' where t: "with_ssl (SSL_connect strict_env) strict_env (fleeing_start True) = Inr ((1, SSL_ERROR_NONE, out'), e)"
    "disconnected (c_state e)"
    using fleeing_shakes(2) by blast
  obtain c where c: "HandleStarvedConnectState strict_env (fleeing_start True) = Inr (True, c)"
    "\<exists>certs. c_log c = [LogVerify certs, LogEstablished]"
    using fleeing_shakes(3) by blast
  have "HandleStarvedConnectState strict_env (fleeing_start False) = Inl HandleClosed"
    using verify_handler_disconnects [OF fleeing_coherent f] by simp
  moreover have "c_state c = TLS_CONNECTION_STATE_ESTABLISHED \<and> all_closed c
      \<and> TLSConnectionThread_end strict_env True c = Inl NotReachedTrap"
    using verify_handler_disconnects [OF fleeing_coherent t, THEN conjunct2, THEN conjunct2, THEN conjunct1] c(1)
    by blast
  ultimately show ?thesis using c by blast
qed

end
