(* ===== verification/TLSDelivery.thy ===== *)
theory TLSDelivery
  imports TLSTrust
begin

section \<open>What OpenSSL decrypts, the user is given\<close>

text \<open>
  The data path from the BIO to the read handler. With OpenSSL's state extended by the bytes it has
  read and the plain text it has returned (\<open>ssl_tracks\<close>), every operation keeps the first equal to the
  bytes taken from the BIO and the second to the concatenation of what the handler was given.
\<close>

subsection \<open>What the user has been given\<close>

fun read_bytes :: "tls_log \<Rightarrow> cell list" where
  "read_bytes (LogRead bytes) = bytes"
| "read_bytes _ = []"

definition delivered :: "tls_log list \<Rightarrow> cell list" where
  "delivered log = concat (map read_bytes log)"

lemma delivered_simps [simp]:
  "delivered [] = []" "delivered (xs @ ys) = delivered xs @ delivered ys" "delivered [e] = read_bytes e"
  by (simp_all add: delivered_def)

text \<open>
  \<open>T\<close> reads off OpenSSL's state the bytes it has read from the BIO since it was made and the plain text
  it has returned. Any state can be extended by such a history; the calls then keep it.
\<close>

definition ssl_tracks :: "('s \<Rightarrow> cell list \<times> cell list) \<Rightarrow> ('s, 'h, 'q) tls_env \<Rightarrow> bool" where
  "ssl_tracks T env \<longleftrightarrow> (\<forall>ctx. T (SSL_new env ctx) = ([], []))
     \<and> (\<forall>s. prog_reads (\<lambda>g n out s'. T s' = (fst (T s) @ g, snd (T s))) [] (SSL_connect env s))
     \<and> (\<forall>s bytes. prog_reads (\<lambda>g n out s'. T s' = (fst (T s) @ g, snd (T s))) [] (SSL_write env s bytes))
     \<and> (\<forall>s len. prog_reads (\<lambda>g n out s'. T s' = (fst (T s) @ g, snd (T s) @ (if 0 < n then out else []))) []
          (SSL_read env s len))"

definition same_data :: "'s tls_conn \<Rightarrow> 's tls_conn \<Rightarrow> bool" where
  "same_data c c' \<longleftrightarrow> c_used c' = c_used c \<and> c_ssl c' = c_ssl c \<and> delivered (c_log c') = delivered (c_log c)
     \<and> c_read_handler c' = c_read_handler c \<and> (c_state c' = c_state c \<or> disconnected (c_state c'))"

text \<open>Everything OpenSSL decrypted, the user has been given, but for \<open>extra\<close>.\<close>

definition data_inv :: "('s \<Rightarrow> cell list \<times> cell list) \<Rightarrow> cell list \<Rightarrow> 's tls_conn \<Rightarrow> bool" where
  "data_inv T extra c \<longleftrightarrow> c_read_handler c \<noteq> None \<and> c_state c \<noteq> TLS_CONNECTION_STATE_PRE_CONNECT
     \<and> (\<exists>s. c_ssl c = Some s \<and> T s = (c_used c, delivered (c_log c) @ extra))"

lemma same_data_inv: "same_data c c' \<Longrightarrow> data_inv T extra c \<Longrightarrow> data_inv T extra c'"
  by (auto simp: same_data_def data_inv_def)

lemma delivered_quiet: "visible vs = [] \<Longrightarrow> delivered vs = []"
  by (induction vs rule: rev_induct) (auto simp: visible_def delivered_def elim!: read_bytes.elims split: if_splits)

lemma shutdown_data:
  "ShutdownError e c = Inr c' \<Longrightarrow> same_data c c'" "ShutdownRemote c = Inr c' \<Longrightarrow> same_data c c'"
  "Disconnect us c = Inr c' \<Longrightarrow> same_data c c'"
  "Shutdown st c = Inr c' \<Longrightarrow> disconnected st \<Longrightarrow> same_data c c'"
  using ShutdownError_frame [of e c c'] ShutdownRemote_frame [of c c'] Disconnect_frame [of us c c']
    Shutdown_frame [of st c c']
  by (auto simp: same_data_def keeps_def)

lemmas shutdown_data_inv = shutdown_data [THEN same_data_inv]

text \<open>A call of OpenSSL tells the user nothing but verifications.\<close>

lemma run_ssl_told:
  "run_ssl p env c = Inr ((n, err, out), c') \<Longrightarrow>
   delivered (c_log c') = delivered (c_log c) \<and> c_read_handler c' = c_read_handler c
     \<and> (c_state c' = c_state c \<or> disconnected (c_state c'))"
  using run_ssl_frame [of p env c n err out c'] delivered_quiet by (auto simp: keeps_def)

lemma with_ssl_data:
  assumes "with_ssl call env c = Inr ((n, err, out), c')" "data_inv T extra c"
    "\<And>s. prog_reads (\<lambda>g n out s'. T s' = (fst (T s) @ g, snd (T s) @ plain n out)) [] (call s)"
  shows "data_inv T (extra @ plain n out) c'"
proof -
  obtain s where s: "c_ssl c = Some s" "T s = (c_used c, delivered (c_log c) @ extra)" "c_read_handler c \<noteq> None"
    "c_state c \<noteq> TLS_CONNECTION_STATE_PRE_CONNECT"
    using assms(2) by (auto simp: data_inv_def)
  then have r: "run_ssl (call s) env c = Inr ((n, err, out), c')" using assms(1) by (simp add: with_ssl_def)
  obtain s' got where g: "c_ssl c' = Some s'" "c_used c' = c_used c @ got"
    "T s' = (fst (T s) @ got, snd (T s) @ plain n out)"
    using run_ssl_reads [OF r assms(3)] by auto
  then show ?thesis using s run_ssl_told [OF r] by (auto simp: data_inv_def)
qed

lemma Write_data:
  assumes "ssl_tracks T env" "Write env (c_thread_id c) buf c = Inr c'" "data_inv T [] c"
  shows "data_inv T [] c'"
proof -
  obtain n err out d where d: "with_ssl (\<lambda>s. SSL_write env s (content buf)) env c = Inr ((n, err, out), d)"
    "c' = d \<or> (\<exists>e. ShutdownError e d = Inr c') \<or> ShutdownRemote d = Inr c'"
    using Write_branches [OF assms(2)] by blast
  have "data_inv T [] d"
    using with_ssl_data [OF d(1) assms(3), of "\<lambda>n out. []"] assms(1) by (simp add: ssl_tracks_def)
  then show ?thesis using d(2) shutdown_data_inv(1,2) by blast
qed

lemma run_calls_data:
  assumes "ssl_tracks T env" "run_calls env calls c = Inr c'" "data_inv T [] c"
  shows "data_inv T [] c'"
  using assms(2,3)
proof (induction calls arbitrary: c)
  case (Cons call calls)
  show ?case
  proof (cases call)
    case (CallWrite buf)
    then obtain d where d: "Write env (c_thread_id c) buf c = Inr d" "run_calls env calls d = Inr c'"
      using Cons.prems(1) by (auto simp: bindR_eq_Inr_iff)
    from Cons.IH [OF d(2) Write_data [OF assms(1) d(1) Cons.prems(2)]] show ?thesis .
  next
    case CallDisconnect
    then obtain d where d: "Disconnect (c_thread_id c) c = Inr d" "run_calls env calls d = Inr c'"
      using Cons.prems(1) by (auto simp: bindR_eq_Inr_iff)
    from Cons.IH [OF d(2) shutdown_data_inv(3) [OF d(1) Cons.prems(2)]] show ?thesis .
  qed
qed simp

lemma TransitionToConnectionEstablishedState_data:
  assumes "ssl_tracks T env" "TransitionToConnectionEstablishedState env c = Inr c'" "data_inv T [] c"
  shows "data_inv T [] c'"
proof (cases "c_established_handler c")
  case None
  then show ?thesis using assms(2,3) by (auto simp: TransitionToConnectionEstablishedState_def data_inv_def)
next
  case (Some g)
  let ?c = "c\<lparr>c_state := TLS_CONNECTION_STATE_ESTABLISHED, c_log := c_log c @ [LogEstablished]\<rparr>"
  have "run_calls env (g (c_log c)) ?c = Inr c'"
    using assms(2) Some by (simp add: TransitionToConnectionEstablishedState_def)
  then show ?thesis by (rule run_calls_data [OF assms(1)]) (use assms(3) in \<open>simp add: data_inv_def\<close>)
qed

lemma HandleStarvedConnectState_data:
  assumes "ssl_tracks T env" "HandleStarvedConnectState env c = Inr (b, c')" "data_inv T [] c"
  shows "data_inv T [] c'"
proof -
  obtain n err out d where w: "with_ssl (SSL_connect env) env c = Inr ((n, err, out), d)"
    and r: "n = 1 \<and> b \<and> TransitionToConnectionEstablishedState env d = Inr c'
      \<or> n \<noteq> 1 \<and> \<not> b \<and> (c' = d \<or> (\<exists>e. ShutdownError e d = Inr c') \<or> ShutdownRemote d = Inr c')"
    using HandleStarvedConnectState_branches [OF assms(2)] by blast
  have i: "data_inv T [] d"
    using with_ssl_data [OF w assms(3), of "\<lambda>n out. []"] assms(1) by (simp add: ssl_tracks_def)
  show ?thesis
    using r i TransitionToConnectionEstablishedState_data [OF assms(1) _ i] shutdown_data_inv(1,2) [OF _ i] by blast
qed

lemma run_ssl_all:
  "run_ssl p env c = Inr ((n, err, out), c') \<Longrightarrow> prog_all (env_x509 env) Q p \<Longrightarrow> Q n out"
proof (induction p arbitrary: c)
  case (BioRead len k)
  then obtain m buf b where "UVBio_Read (BIO_retry_read env) (c_bio c) (c_malloc len) len = Inr (m, buf, b)"
    by (auto simp: bindR_eq_Inr_iff)
  with BioRead show ?case by (fastforce simp: Let_def)
qed (fastforce simp: bindR_eq_Inr_iff)+

text \<open>A block filled by \<open>SSL_read\<close> and cut to what it returned holds just that.\<close>

lemma filled_content:
  assumes "ba_wf p" "0 < n" "n \<le> Capacity p" "int (length out) = n"
    "bindR (Data_write p 0 out) (\<lambda>p. Truncate p n) = Inr p'"
  shows "ba_wf p' \<and> content p' = out"
  using read_buffer [OF assms(1-4)] assms(5) by (metis sum.inject(2))

lemma OnRead_body_data:
  assumes IH: "\<And>p c. f env p c = Some (Inr c') \<Longrightarrow> ba_wf p \<Longrightarrow> data_inv T [] c \<Longrightarrow> data_inv T [] c'"
    and doc: "ssl_documented env" and tr: "ssl_tracks T env"
    and body: "OnRead_body f env p c = Some (Inr c')" and wf: "ba_wf p" and i: "data_inv T [] c"
  shows "data_inv T [] c'"
proof -
  obtain n err out d where d: "with_ssl (\<lambda>s. SSL_read env s (Capacity p)) env c = Inr ((n, err, out), d)"
    and b: "(n = -1 \<or> n = 0) \<and> (c' = d \<or> (\<exists>e. ShutdownError e d = Inr c') \<or> ShutdownRemote d = Inr c')
      \<or> n \<noteq> -1 \<and> n \<noteq> 0 \<and> (\<exists>p' e. bindR (Data_write p 0 out) (\<lambda>p. Truncate p n) = Inr p' \<and> f env p' e = Some (Inr c')
        \<and> (case c_read_handler d of None \<Rightarrow> Inr d
          | Some g \<Rightarrow> run_calls env (g (c_log d) p') (d\<lparr>c_log := c_log d @ [LogRead (content p')]\<rparr>)) = Inr e)"
    using OnRead_body_branches [OF body] by blast
  obtain s where s: "run_ssl (SSL_read env s (Capacity p)) env c = Inr ((n, err, out), d)"
    using with_ssl_run [OF d] by blast
  have "0 \<le> Capacity p" using wf by (simp add: ba_wf_def Capacity_def)
  then have "prog_all (env_x509 env) (\<lambda>n out. -1 \<le> n \<and> n \<le> Capacity p \<and> (0 < n \<longrightarrow> int (length out) = n))
      (SSL_read env s (Capacity p))"
    using doc by (simp add: ssl_documented_def)
  from run_ssl_all [OF s this] have rng: "-1 \<le> n" "n \<le> Capacity p" "0 < n \<longrightarrow> int (length out) = n" by simp_all
  have id: "data_inv T (if 0 < n then out else []) d"
    using with_ssl_data [OF d i, of "\<lambda>n out. if 0 < n then out else []"] tr by (simp add: ssl_tracks_def)
  show ?thesis
  proof (cases "n = -1 \<or> n = 0")
    case True
    then have "data_inv T [] d" using id by auto
    then show ?thesis using b True shutdown_data_inv(1,2) by blast
  next
    case False
    then have n: "0 < n" using rng(1) by linarith
    obtain p' e where e: "bindR (Data_write p 0 out) (\<lambda>p. Truncate p n) = Inr p'" "f env p' e = Some (Inr c')"
      "(case c_read_handler d of None \<Rightarrow> Inr d
        | Some g \<Rightarrow> run_calls env (g (c_log d) p') (d\<lparr>c_log := c_log d @ [LogRead (content p')]\<rparr>)) = Inr e"
      using b False by blast
    have p': "ba_wf p'" "content p' = out"
      using filled_content [OF wf n rng(2) _ e(1)] rng(3) n by blast+
    obtain g where g: "c_read_handler d = Some g" using id by (auto simp: data_inv_def)
    let ?d = "d\<lparr>c_log := c_log d @ [LogRead (content p')]\<rparr>"
    have "data_inv T [] ?d" using id n p'(2) by (simp add: data_inv_def)
    then have "data_inv T [] e" using run_calls_data [OF tr, of "g (c_log d) p'" ?d e] e(3) g by simp
    then show ?thesis using IH [OF e(2) p'(1)] by blast
  qed
qed

lemma OnRead_loop_data:
  fixes env :: "('s, 'h, 'q) tls_env"
  assumes "ssl_documented env" "ssl_tracks T env" "OnRead_loop env p c = Some (Inr c')" "ba_wf p" "data_inv T [] c"
  shows "data_inv T [] c'"
proof -
  let ?P = "\<lambda>(env :: ('s, 'h, 'q) tls_env) p c r. \<forall>c'. r = Inr c' \<longrightarrow> ssl_documented env \<longrightarrow> ssl_tracks T env
    \<longrightarrow> ba_wf p \<longrightarrow> data_inv T [] c \<longrightarrow> data_inv T [] c'"
  have "?P env p c r" if "OnRead_loop env p c = Some r" for r
  proof (rule OnRead_loop_induct [where P = ?P, OF _ that], intro allI impI)
    fix f env p c r c'
    assume "\<And>env p c r. f env p c = Some r \<Longrightarrow> ?P env p c r" "OnRead_body f env p c = Some r" "r = Inr c'"
      "ssl_documented env" "ssl_tracks T env" "ba_wf p" "data_inv T [] c"
    then show "data_inv T [] c'" using OnRead_body_data [of f env c' T p c] by blast
  qed
  from this [OF assms(3)] show ?thesis using assms(1,2,4,5) by blast
qed

definition fresh_data :: "'s tls_conn \<Rightarrow> bool" where
  "fresh_data c \<longleftrightarrow> c_ssl c = None \<and> c_used c = [] \<and> delivered (c_log c) = [] \<and> c_read_handler c \<noteq> None
     \<and> c_state c \<noteq> TLS_CONNECTION_STATE_STARVED_SSL_CONNECT \<and> c_state c \<noteq> TLS_CONNECTION_STATE_ESTABLISHED"

definition data_ok :: "('s \<Rightarrow> cell list \<times> cell list) \<Rightarrow> 's tls_conn \<Rightarrow> bool" where
  "data_ok T c \<longleftrightarrow> fresh_data c \<or> data_inv T [] c"

lemma same_data_ok:
  assumes "same_data c c'" "data_ok T c"
  shows "data_ok T c'"
proof -
  have "fresh_data c \<Longrightarrow> fresh_data c'" using assms(1) by (auto simp: same_data_def fresh_data_def)
  then show ?thesis using assms(2) same_data_inv [OF assms(1)] by (auto simp: data_ok_def)
qed

lemma OnConnect_data:
  assumes "ssl_tracks T env" "OnConnect env status read_ok c = Inr c'" "data_ok T c"
  shows "data_ok T c'"
proof -
  note b = OnConnect_branches [OF assms(2)]
  then have f: "fresh_data c" using assms(3) by (simp add: data_ok_def data_inv_def)
  then have "data_ok T (c\<lparr>c_connecting := False\<rparr>)" "data_inv T [] (ssl_started env c)"
    using assms(1) by (simp_all add: data_ok_def fresh_data_def ssl_started_def data_inv_def ssl_tracks_def)
  then show ?thesis
    using b same_data_ok [OF shutdown_data(1)] HandleStarvedConnectState_data [OF assms(1)]
    by (auto simp: data_ok_def)
qed

lemma OnRead_data_ok:
  assumes "ssl_documented env" "ssl_tracks T env" "tls_enabled (EvRead nread buf buf_len) c"
    "OnRead env nread buf buf_len c = Some (Inr c')" "data_ok T c"
  shows "data_ok T c'"
proof (cases "(c_state c = TLS_CONNECTION_STATE_STARVED_SSL_CONNECT \<or> c_state c = TLS_CONNECTION_STATE_ESTABLISHED)
    \<and> nread \<noteq> -1 \<and> nread \<noteq> 0")
  case False
  from OnRead_ends [OF this assms(4)] show ?thesis
    using same_data_ok [OF shutdown_data(1) assms(5)] same_data_ok [OF shutdown_data(2) assms(5)] assms(5) by blast
next
  case True
  then have run: "c_state c = TLS_CONNECTION_STATE_STARVED_SSL_CONNECT \<or> c_state c = TLS_CONNECTION_STATE_ESTABLISHED"
    "nread \<noteq> -1" "nread \<noteq> 0" by blast+
  then have i: "data_inv T [] c" using assms(5) by (auto simp: data_ok_def fresh_data_def)
  from OnRead_data [OF run assms(4)] obtain b st go_on e
    where e: "shake env (fed b st c) = Inr (go_on, e)"
      "(if go_on \<and> c_state e = TLS_CONNECTION_STATE_ESTABLISHED
        then OnRead_loop env (ByteArray_len nread) e = Some (Inr c') else e = c')"
    by blast
  have f: "data_inv T [] (fed b st c)" using i by (simp add: fed_def data_inv_def)
  have ie: "data_inv T [] e"
    using e(1) f HandleStarvedConnectState_data [OF assms(2) _ f] by (auto simp: shake_def split: if_splits)
  have "ba_wf (ByteArray_len nread)" using assms(3) run(2,3) by (intro ba_wf_len) auto
  then have "data_inv T [] c'"
    using e(2) ie OnRead_loop_data [OF assms(1,2) _ _ ie] by (auto split: if_splits)
  then show ?thesis by (simp add: data_ok_def)
qed

lemma OnDrainWriteQueue_data:
  assumes "ssl_tracks T env" "OnDrainWriteQueue env c = Inr c'" "data_ok T c"
  shows "data_ok T c'"
proof (cases "c_state c = TLS_CONNECTION_STATE_ESTABLISHED")
  case True
  obtain d where d: "run_calls env (map CallWrite (c_wq c)) (c\<lparr>c_wq_signal := False\<rparr>) = Inr d" "c' = d\<lparr>c_wq := []\<rparr>"
    using assms(2) unfolding OnDrainWriteQueue_calls [OF True] with_wq_def by (auto simp: bindR_eq_Inr_iff)
  have "data_inv T [] (c\<lparr>c_wq_signal := False\<rparr>)"
    using assms(3) True by (auto simp: data_ok_def fresh_data_def data_inv_def)
  from run_calls_data [OF assms(1) d(1) this] show ?thesis by (simp add: d(2) data_ok_def data_inv_def)
next
  case False
  then have "same_data c c'" using assms(2) by (auto simp: OnDrainWriteQueue_def same_data_def)
  from same_data_ok [OF this assms(3)] show ?thesis .
qed

lemma tls_handle_data:
  assumes "ssl_documented env" "ssl_tracks T env" "tls_enabled ev c" "tls_handle env ev c = Some (Inr c')"
    "data_ok T c"
  shows "data_ok T c'"
proof (cases ev)
  case (EvConnect status read_ok)
  then show ?thesis using OnConnect_data [OF assms(2) _ assms(5)] assms(4) by simp
next
  case (EvRead nread buf buf_len)
  show ?thesis
    using OnRead_data_ok [OF assms(1,2) assms(3) [unfolded EvRead] _ assms(5)] assms(4)
    by (simp only: EvRead tls_handle.simps)
next
  case EvDrain
  then show ?thesis using OnDrainWriteQueue_data [OF assms(2) _ assms(5)] assms(4) by simp
next
  case EvDisconnectRequest
  then have "Shutdown TLS_CONNECTION_STATE_DISCONNECTED_LOCAL (c\<lparr>c_dc_signal := False\<rparr>) = Inr c'"
    using assms(4) by (simp add: OnDisconnectRequest_def)
  then have "same_data (c\<lparr>c_dc_signal := False\<rparr>) c'" by (rule shutdown_data(4)) simp
  then have "same_data c c'" by (simp add: same_data_def)
  from same_data_ok [OF this assms(5)] show ?thesis .
next
  case (EvWrite us buf)
  then have "same_data c c'"
    using foreign_Write [of env us buf c c'] assms(3,4) by (auto simp: same_data_def)
  from same_data_ok [OF this assms(5)] show ?thesis .
next
  case (EvDisconnect us)
  then have "same_data c c'" using assms(4) shutdown_data(3) by simp
  from same_data_ok [OF this assms(5)] show ?thesis .
qed

subsection \<open>The property\<close>

text \<open>C3: With a read handler, what the handler has been given is at every moment the plain text OpenSSL
  has returned, complete and in order, and OpenSSL has read exactly the bytes taken from the BIO.\<close>

theorem TLSConnection_delivers:
  assumes "\<forall>env. ok_env env \<longrightarrow> ssl_documented env \<and> ssl_tracks T env" "tls_object c0"
    "c_read_handler c0 \<noteq> None" "tls_reachable ok_env c0 c" "c_ssl c = Some s"
  shows "T s = (c_used c, delivered (c_log c))"
proof -
  have "data_ok T c"
    using assms(4)
  proof (induction rule: tls_reachable.induct)
    case (start env self opts e c)
    have "c_ssl c0 = None \<and> c_used c0 = [] \<and> c_log c0 = []" using tls_object_new [OF assms(2)] by blast
    then have "fresh_data (TLSConnectionThread_start self c)"
      using start(3) assms(3) by (auto simp: Connect_def Let_def TLSConnectionThread_start_def fresh_data_def
          split: option.splits)
    then show ?case by (simp add: data_ok_def)
  next
    case (step c ev c')
    obtain env where env: "ok_env env" "tls_enabled ev c" "tls_handle env ev c = Some (Inr c')"
      using step(2) by (blast elim: tls_stepE)
    then show ?case using tls_handle_data [of env T ev c c'] assms(1) step.IH by blast
  qed
  then show ?thesis using assms(5) by (auto simp: data_ok_def fresh_data_def data_inv_def)
qed

lemma null_env_tracks: "ssl_tracks snd null_env"
  by (auto simp: ssl_tracks_def Let_def)

theorem TLSConnection_delivers_witness:
  "snd (False, map Some ''abc'', map Some ''abc'') = (c_used echo_said, delivered (c_log echo_said))"
proof (rule TLSConnection_delivers [OF _ echo_conn_object _ echo_said_reachable])
  show "c_read_handler echo_conn \<noteq> None" by (simp add: echo_conn_def handler_defs)
  show "c_ssl echo_said = Some (False, map Some ''abc'', map Some ''abc'')" by (simp add: echo_said_def)
qed (simp add: null_env_documented null_env_tracks)

end
