(* ===== verification/TLSReconnect.thy ===== *)
theory TLSReconnect
  imports TLSProperties
begin

section \<open>Connecting again\<close>

text \<open>
  An object whose thread has ended can be connected again. The new session is that of a new object
  whose handlers remember what they have been told before: \<open>anew c1\<close> is that object, and \<open>resumed c1\<close> adds
  the history of \<open>c1\<close> to a state of its session. Every operation commutes with \<open>resumed\<close>, so the second
  session has all the properties of the first.
\<close>

subsection \<open>The object after a session\<close>

definition anew :: "'s tls_conn \<Rightarrow> 's tls_conn" where
  "anew c1 = c1\<lparr>c_log := [], c_recv := [], c_used := [], c_sent := [], c_ssl := None,
     c_verify_handler := map_option (\<lambda>h log. h (c_log c1 @ log)) (c_verify_handler c1),
     c_established_handler := map_option (\<lambda>h log. h (c_log c1 @ log)) (c_established_handler c1),
     c_read_handler := map_option (\<lambda>h log. h (c_log c1 @ log)) (c_read_handler c1)\<rparr>"

text \<open>The object of OpenSSL is that of the last session until the connect callback makes a new one.\<close>

definition resumed :: "'s tls_conn \<Rightarrow> 's tls_conn \<Rightarrow> 's tls_conn" where
  "resumed c1 d = d\<lparr>c_log := c_log c1 @ c_log d, c_recv := c_recv c1 @ c_recv d, c_used := c_used c1 @ c_used d,
     c_sent := c_sent c1 @ c_sent d, c_ssl := (case c_ssl d of None \<Rightarrow> c_ssl c1 | Some s \<Rightarrow> Some s),
     c_verify_handler := c_verify_handler c1, c_established_handler := c_established_handler c1,
     c_read_handler := c_read_handler c1\<rparr>"

definition resumedR :: "'s tls_conn \<Rightarrow> 's tls_conn res \<Rightarrow> 's tls_conn res" where
  "resumedR c1 r = bindR r (\<lambda>d. Inr (resumed c1 d))"

lemma resumedR_simps [simp]:
  "resumedR c1 (Inl e) = Inl e" "resumedR c1 (Inr d) = Inr (resumed c1 d)"
  by (simp_all add: resumedR_def)

lemma resumed_anew: "resumed c1 (anew c1) = c1"
  by (simp add: resumed_def anew_def)

definition remembers :: "'s tls_conn \<Rightarrow> 's tls_conn \<Rightarrow> bool" where
  "remembers c1 d \<longleftrightarrow> c_verify_handler d = c_verify_handler (anew c1)
     \<and> c_established_handler d = c_established_handler (anew c1) \<and> c_read_handler d = c_read_handler (anew c1)"

lemma keeps_remembers: "keeps d d' \<Longrightarrow> remembers c1 d \<Longrightarrow> remembers c1 d'"
  by (simp add: keeps_def remembers_def)

lemma resumed_sel [simp]:
  "c_state (resumed c1 d) = c_state d" "c_thread_id (resumed c1 d) = c_thread_id d"
  "c_bio (resumed c1 d) = c_bio d" "c_wq (resumed c1 d) = c_wq d" "c_err (resumed c1 d) = c_err d"
  "c_tcpsock_closed (resumed c1 d) = c_tcpsock_closed d" "c_wqasync_closed (resumed c1 d) = c_wqasync_closed d"
  "c_dcasync_closed (resumed c1 d) = c_dcasync_closed d" "c_connecting (resumed c1 d) = c_connecting d"
  "c_reading (resumed c1 d) = c_reading d" "c_ctx (resumed c1 d) = c_ctx d" "c_wq_signal (resumed c1 d) = c_wq_signal d"
  "c_dc_signal (resumed c1 d) = c_dc_signal d"
  "c_log (resumed c1 d) = c_log c1 @ c_log d" "c_recv (resumed c1 d) = c_recv c1 @ c_recv d"
  "c_used (resumed c1 d) = c_used c1 @ c_used d" "c_sent (resumed c1 d) = c_sent c1 @ c_sent d"
  "c_verify_handler (resumed c1 d) = c_verify_handler c1"
  "c_established_handler (resumed c1 d) = c_established_handler c1"
  "c_read_handler (resumed c1 d) = c_read_handler c1"
  "c_ssl d = Some s \<Longrightarrow> c_ssl (resumed c1 d) = Some s"
  by (simp_all add: resumed_def)

lemma resumed_upd [simp]:
  "(resumed c1 d)\<lparr>c_state := st\<rparr> = resumed c1 (d\<lparr>c_state := st\<rparr>)"
  "(resumed c1 d)\<lparr>c_thread_id := i\<rparr> = resumed c1 (d\<lparr>c_thread_id := i\<rparr>)"
  "(resumed c1 d)\<lparr>c_ctx := x\<rparr> = resumed c1 (d\<lparr>c_ctx := x\<rparr>)"
  "(resumed c1 d)\<lparr>c_bio := b\<rparr> = resumed c1 (d\<lparr>c_bio := b\<rparr>)"
  "(resumed c1 d)\<lparr>c_wq := wq\<rparr> = resumed c1 (d\<lparr>c_wq := wq\<rparr>)"
  "(resumed c1 d)\<lparr>c_err := e\<rparr> = resumed c1 (d\<lparr>c_err := e\<rparr>)"
  "(resumed c1 d)\<lparr>c_nodelay := nd\<rparr> = resumed c1 (d\<lparr>c_nodelay := nd\<rparr>)"
  "(resumed c1 d)\<lparr>c_tcpsock_closed := t\<rparr> = resumed c1 (d\<lparr>c_tcpsock_closed := t\<rparr>)"
  "(resumed c1 d)\<lparr>c_wqasync_closed := t\<rparr> = resumed c1 (d\<lparr>c_wqasync_closed := t\<rparr>)"
  "(resumed c1 d)\<lparr>c_dcasync_closed := t\<rparr> = resumed c1 (d\<lparr>c_dcasync_closed := t\<rparr>)"
  "(resumed c1 d)\<lparr>c_connecting := t\<rparr> = resumed c1 (d\<lparr>c_connecting := t\<rparr>)"
  "(resumed c1 d)\<lparr>c_reading := t\<rparr> = resumed c1 (d\<lparr>c_reading := t\<rparr>)"
  "(resumed c1 d)\<lparr>c_wq_signal := t\<rparr> = resumed c1 (d\<lparr>c_wq_signal := t\<rparr>)"
  "(resumed c1 d)\<lparr>c_dc_signal := t\<rparr> = resumed c1 (d\<lparr>c_dc_signal := t\<rparr>)"
  "(resumed c1 d)\<lparr>c_log := c_log c1 @ l\<rparr> = resumed c1 (d\<lparr>c_log := l\<rparr>)"
  "(resumed c1 d)\<lparr>c_recv := c_recv c1 @ r\<rparr> = resumed c1 (d\<lparr>c_recv := r\<rparr>)"
  "(resumed c1 d)\<lparr>c_used := c_used c1 @ r\<rparr> = resumed c1 (d\<lparr>c_used := r\<rparr>)"
  "(resumed c1 d)\<lparr>c_sent := c_sent c1 @ r\<rparr> = resumed c1 (d\<lparr>c_sent := r\<rparr>)"
  "(resumed c1 d)\<lparr>c_ssl := Some s\<rparr> = resumed c1 (d\<lparr>c_ssl := Some s\<rparr>)"
  by (simp_all add: resumed_def)

subsection \<open>Every operation commutes with it\<close>

lemma shutdown_resumed:
  "Shutdown st (resumed c1 d) = resumedR c1 (Shutdown st d)"
  "ShutdownError e (resumed c1 d) = resumedR c1 (ShutdownError e d)"
  "ShutdownRemote (resumed c1 d) = resumedR c1 (ShutdownRemote d)"
  "Disconnect us (resumed c1 d) = resumedR c1 (Disconnect us d)"
proof -
  show s: "Shutdown st (resumed c1 d) = resumedR c1 (Shutdown st d)" for st d
    by (simp add: Shutdown_def uv_close_all_def Let_def)
  show "ShutdownError e (resumed c1 d) = resumedR c1 (ShutdownError e d)"
    "ShutdownRemote (resumed c1 d) = resumedR c1 (ShutdownRemote d)"
    "Disconnect us (resumed c1 d) = resumedR c1 (Disconnect us d)"
    by (simp_all add: ShutdownError_def ShutdownRemote_def Disconnect_def Let_def s)
qed

lemma SSLVerifyCallback_resumed:
  assumes "remembers c1 d"
  shows "SSLVerifyCallback env chain (resumed c1 d)
    = bindR (SSLVerifyCallback env chain d) (\<lambda>(r, d). Inr (r, resumed c1 d))"
  using assms
  by (cases "c_verify_handler c1")
    (auto simp: SSLVerifyCallback_def shutdown_resumed resumedR_def bindR_assoc Let_def remembers_def anew_def
      split: option.splits prod.splits intro!: bindR_cong)

lemma ssl_verify_cert_chain_resumed:
  assumes "remembers c1 d"
  shows "ssl_verify_cert_chain env chain (resumed c1 d)
    = bindR (ssl_verify_cert_chain env chain d) (\<lambda>(r, d). Inr (r, resumed c1 d))"
  by (simp add: ssl_verify_cert_chain_def SSLVerifyCallback_resumed [OF assms])

lemma run_ssl_resumed:
  "remembers c1 d \<Longrightarrow>
   run_ssl p env (resumed c1 d) = bindR (run_ssl p env d) (\<lambda>(r, d). Inr (r, resumed c1 d))"
proof (induction p arbitrary: d)
  case (BioRead len k)
  have "remembers c1 (d\<lparr>c_bio := b, c_used := u\<rparr>)" for b u
    using BioRead.prems by (simp add: remembers_def)
  then show ?case
    using BioRead.IH [OF rangeI rangeI]
    by (auto simp: bindR_assoc Let_def split: prod.splits intro!: bindR_cong)
next
  case (BioWrite bytes k)
  have "remembers c1 (d\<lparr>c_sent := u\<rparr>)" for u using BioWrite.prems by (simp add: remembers_def)
  then show ?case
    using BioWrite.IH [OF rangeI]
    by (auto simp: bindR_assoc split: prod.splits intro!: bindR_cong)
next
  case (SSLVerify chain k)
  have "run_ssl (k r) env (resumed c1 e) = bindR (run_ssl (k r) env e) (\<lambda>(r, d). Inr (r, resumed c1 d))"
    if "ssl_verify_cert_chain env chain d = Inr (r, e)" for r e
    using SSLVerify.IH [OF rangeI keeps_remembers [OF _ SSLVerify.prems]] ssl_verify_cert_chain_frame [OF that] by blast
  then show ?case
    by (auto simp: bindR_assoc ssl_verify_cert_chain_resumed [OF SSLVerify.prems] split: prod.splits intro!: bindR_cong)
qed simp

text \<open>Once there is an object of OpenSSL there always is.\<close>

definition starts :: "'s tls_conn \<Rightarrow> 's tls_conn \<Rightarrow> bool" where
  "starts c1 d \<longleftrightarrow> remembers c1 d \<and> c_ssl d \<noteq> None"

lemma prog_reads_True: "prog_reads (\<lambda>g n out s. True) g p"
proof (induction p arbitrary: g)
  case (BioRead len k)
  then show ?case using BioRead.IH [OF rangeI rangeI] by simp
qed simp_all

lemma with_ssl_starts:
  assumes "with_ssl call env d = Inr (x, d')" "remembers c1 d"
  shows "starts c1 d'"
proof -
  obtain n err out where x: "x = (n, err, out)" by (cases x)
  obtain s where r: "run_ssl (call s) env d = Inr ((n, err, out), d')" using with_ssl_run assms(1) x by blast
  show ?thesis
    using run_ssl_reads [OF r prog_reads_True] run_ssl_frame [OF r] keeps_remembers [OF _ assms(2)]
    by (auto simp: starts_def)
qed

lemma with_ssl_resumed:
  assumes "starts c1 d"
  shows "with_ssl call env (resumed c1 d) = bindR (with_ssl call env d) (\<lambda>(x, d). Inr (x, resumed c1 d))"
proof -
  obtain s where "c_ssl d = Some s" using assms by (auto simp: starts_def)
  then show ?thesis using assms by (simp add: with_ssl_def run_ssl_resumed starts_def)
qed

lemma shutdown_starts:
  "ShutdownError e d = Inr d' \<Longrightarrow> starts c1 d \<Longrightarrow> starts c1 d'" "ShutdownRemote d = Inr d' \<Longrightarrow> starts c1 d \<Longrightarrow> starts c1 d'"
  "Disconnect us d = Inr d' \<Longrightarrow> starts c1 d \<Longrightarrow> starts c1 d'"
  using ShutdownError_frame [of e d d'] ShutdownRemote_frame [of d d'] Disconnect_frame [of us d d'] keeps_remembers
  by (auto simp: starts_def)

lemma Write_resumed:
  assumes "starts c1 d"
  shows "Write env (c_thread_id d) buf (resumed c1 d) = resumedR c1 (Write env (c_thread_id d) buf d)"
  by (auto simp: Write_def with_ssl_resumed [OF assms] shutdown_resumed resumedR_def bindR_assoc
      split: prod.splits intro!: bindR_cong)

lemma Write_starts: "Write env (c_thread_id d) buf d = Inr d' \<Longrightarrow> starts c1 d \<Longrightarrow> starts c1 d'"
  using Write_branches [of env d buf d'] with_ssl_starts shutdown_starts by (metis starts_def)

lemma run_calls_resumed:
  "starts c1 d \<Longrightarrow> run_calls env calls (resumed c1 d) = resumedR c1 (run_calls env calls d)
     \<and> (\<forall>d'. run_calls env calls d = Inr d' \<longrightarrow> starts c1 d')"
proof (induction calls arbitrary: d)
  case (Cons call calls)
  show ?case
  proof (cases call)
    case (CallWrite buf)
    then show ?thesis
      using Cons.IH Write_starts [OF _ Cons.prems]
      by (auto simp: Write_resumed [OF Cons.prems] resumedR_def bindR_assoc bindR_eq_Inr_iff intro!: bindR_cong)
  next
    case CallDisconnect
    then show ?thesis
      using Cons.IH shutdown_starts(3) [OF _ Cons.prems]
      by (auto simp: shutdown_resumed resumedR_def bindR_assoc bindR_eq_Inr_iff intro!: bindR_cong)
  qed
qed simp

lemma establish_resumed:
  assumes "starts c1 d"
  shows "TransitionToConnectionEstablishedState env (resumed c1 d)
      = resumedR c1 (TransitionToConnectionEstablishedState env d)
    \<and> (\<forall>d'. TransitionToConnectionEstablishedState env d = Inr d' \<longrightarrow> starts c1 d')"
proof (cases "c_established_handler c1")
  case None
  then show ?thesis
    using assms
    by (simp add: TransitionToConnectionEstablishedState_def starts_def remembers_def anew_def)
next
  case (Some g)
  let ?d = "d\<lparr>c_state := TLS_CONNECTION_STATE_ESTABLISHED, c_log := c_log d @ [LogEstablished]\<rparr>"
  have "starts c1 ?d" using assms by (simp add: starts_def remembers_def)
  from run_calls_resumed [OF this] show ?thesis
    using assms Some
    by (simp add: TransitionToConnectionEstablishedState_def starts_def remembers_def anew_def)
qed

lemma HandleStarvedConnectState_resumed:
  assumes "starts c1 d"
  shows "HandleStarvedConnectState env (resumed c1 d)
      = bindR (HandleStarvedConnectState env d) (\<lambda>(b, d). Inr (b, resumed c1 d))
    \<and> (\<forall>b d'. HandleStarvedConnectState env d = Inr (b, d') \<longrightarrow> starts c1 d')"
proof -
  have s: "starts c1 e" if "with_ssl (SSL_connect env) env d = Inr (x, e)" for x e
    using with_ssl_starts [OF that, of c1] assms by (simp add: starts_def)
  have t: "TransitionToConnectionEstablishedState env (resumed c1 e)
      = resumedR c1 (TransitionToConnectionEstablishedState env e)"
    if "with_ssl (SSL_connect env) env d = Inr (x, e)" for x e
    using establish_resumed [OF s [OF that]] by blast
  have "HandleStarvedConnectState env (resumed c1 d)
      = bindR (HandleStarvedConnectState env d) (\<lambda>(b, d). Inr (b, resumed c1 d))"
    by (auto simp: HandleStarvedConnectState_def with_ssl_resumed [OF assms] shutdown_resumed resumedR_def t
        NotReached_def bindR_assoc split: prod.splits intro!: bindR_cong)
  moreover have "starts c1 d'" if "HandleStarvedConnectState env d = Inr (b, d')" for b d'
  proof -
    from HandleStarvedConnectState_branches [OF that] obtain x e where
      e: "with_ssl (SSL_connect env) env d = Inr (x, e)" "TransitionToConnectionEstablishedState env e = Inr d'
        \<or> d' = e \<or> (\<exists>er. ShutdownError er e = Inr d') \<or> ShutdownRemote e = Inr d'"
      by blast
    show ?thesis using e(2) establish_resumed [OF s [OF e(1)]] shutdown_starts(1,2) [OF _ s [OF e(1)]] s [OF e(1)] by blast
  qed
  ultimately show ?thesis by blast
qed

lemma handle_read_resumed:
  assumes "starts c1 d"
  shows "(case c_read_handler (resumed c1 d) of None \<Rightarrow> Inr (resumed c1 d)
      | Some g \<Rightarrow> run_calls env (g (c_log (resumed c1 d)) p)
          ((resumed c1 d)\<lparr>c_log := c_log (resumed c1 d) @ [LogRead (content p)]\<rparr>))
    = resumedR c1 (case c_read_handler d of None \<Rightarrow> Inr d
      | Some g \<Rightarrow> run_calls env (g (c_log d) p) (d\<lparr>c_log := c_log d @ [LogRead (content p)]\<rparr>))"
proof (cases "c_read_handler c1")
  case None
  then show ?thesis using assms by (simp add: starts_def remembers_def anew_def)
next
  case (Some g)
  let ?d = "d\<lparr>c_log := c_log d @ [LogRead (content p)]\<rparr>"
  have "starts c1 ?d" using assms by (simp add: starts_def remembers_def)
  note r = run_calls_resumed [OF this, THEN conjunct1]
  have "c_read_handler d = Some (\<lambda>log. g (c_log c1 @ log))"
    using assms Some by (simp add: starts_def remembers_def anew_def)
  then show ?thesis using Some by (simp add: r)
qed

lemma handle_read_starts:
  assumes "(case c_read_handler d of None \<Rightarrow> Inr d
      | Some g \<Rightarrow> run_calls env (g (c_log d) p) (d\<lparr>c_log := c_log d @ [LogRead (content p)]\<rparr>)) = Inr e" "starts c1 d"
  shows "starts c1 e"
proof (cases "c_read_handler d")
  case None
  then show ?thesis using assms by simp
next
  case (Some g)
  let ?d = "d\<lparr>c_log := c_log d @ [LogRead (content p)]\<rparr>"
  have "starts c1 ?d" using assms(2) by (simp add: starts_def remembers_def)
  from run_calls_resumed [OF this] show ?thesis using assms(1) Some by auto
qed

text \<open>A loop that ends after the resumption ends before it.\<close>

lemma OnRead_body_resumed:
  fixes env :: "('s, 'h, 'q) tls_env"
  assumes IH: "\<And>p c r d. f env p c = Some r \<Longrightarrow> c = resumed c1 d \<Longrightarrow> starts c1 d \<Longrightarrow>
      \<exists>r'. OnRead_loop env p d = Some r' \<and> r = resumedR c1 r' \<and> (\<forall>d'. r' = Inr d' \<longrightarrow> starts c1 d')"
    and body: "OnRead_body f env p (resumed c1 d) = Some r" and st: "starts c1 d"
  shows "\<exists>r'. OnRead_loop env p d = Some r' \<and> r = resumedR c1 r' \<and> (\<forall>d'. r' = Inr d' \<longrightarrow> starts c1 d')"
proof (cases "with_ssl (\<lambda>s. SSL_read env s (Capacity p)) env d")
  case (Inl e)
  then show ?thesis
    using body by (auto simp: OnRead_loop_body [of env p d] OnRead_body_def with_ssl_resumed [OF st])
next
  case (Inr x)
  obtain n err out e where x: "x = ((n, err, out), e)" by (cases x) auto
  note w = Inr [unfolded x]
  have se: "starts c1 e" using with_ssl_starts [OF w, of c1] st by (simp add: starts_def)
  note unfolds = OnRead_loop_body [of env p d] OnRead_body_def with_ssl_resumed [OF st] w shutdown_resumed
  consider "n = -1 \<or> n = 0" | er where "n \<noteq> -1" "n \<noteq> 0" "bindR (Data_write p 0 out) (\<lambda>p. Truncate p n) = Inl er"
    | p' where "n \<noteq> -1" "n \<noteq> 0" "bindR (Data_write p 0 out) (\<lambda>p. Truncate p n) = Inr p'"
    by (cases "bindR (Data_write p 0 out) (\<lambda>p. Truncate p n)") auto
  then show ?thesis
  proof cases
    case 1
    then show ?thesis
      using body shutdown_starts(1,2) [OF _ se] se by (elim disjE) (auto simp: unfolds split: if_splits)
  next
    case 2
    then show ?thesis using body by (auto simp: unfolds)
  next
    case 3
    define h where "h = (case c_read_handler e of None \<Rightarrow> Inr e
      | Some g \<Rightarrow> run_calls env (g (c_log e) p') (e\<lparr>c_log := c_log e @ [LogRead (content p')]\<rparr>))"
    have l: "OnRead_loop env p d = (case h of Inl er \<Rightarrow> Some (Inl er) | Inr e \<Rightarrow> OnRead_loop env p' e)"
      using 3 by (simp add: OnRead_loop_body [of env p d] OnRead_body_def w h_def)
    have f: "(case resumedR c1 h of Inl er \<Rightarrow> Some (Inl er) | Inr e \<Rightarrow> f env p' e) = Some r"
      using body 3 handle_read_resumed [OF se, of env p']
      by (simp add: OnRead_body_def with_ssl_resumed [OF st] w flip: h_def)
    show ?thesis
    proof (cases h)
      case (Inr e')
      then have "starts c1 e'" using handle_read_starts [OF _ se] h_def by metis
      then show ?thesis using IH f Inr l by simp
    qed (use l f in auto)
  qed
qed

lemma OnRead_loop_resumed:
  fixes env :: "('s, 'h, 'q) tls_env"
  assumes "OnRead_loop env p (resumed c1 d) = Some r" "starts c1 d"
  shows "\<exists>r'. OnRead_loop env p d = Some r' \<and> r = resumedR c1 r' \<and> (\<forall>d'. r' = Inr d' \<longrightarrow> starts c1 d')"
proof -
  let ?P = "\<lambda>(env :: ('s, 'h, 'q) tls_env) p c r. \<forall>d. c = resumed c1 d \<longrightarrow> starts c1 d \<longrightarrow>
    (\<exists>r'. OnRead_loop env p d = Some r' \<and> r = resumedR c1 r' \<and> (\<forall>d'. r' = Inr d' \<longrightarrow> starts c1 d'))"
  have "?P env p c r" if "OnRead_loop env p c = Some r" for c
  proof (rule OnRead_loop_induct [where P = ?P, OF _ that], intro allI impI)
    fix f env p c r d
    assume "\<And>env p c r. f env p c = Some r \<Longrightarrow> ?P env p c r" "OnRead_body f env p c = Some r"
      "c = resumed c1 d" "starts c1 d"
    then show "\<exists>r'. OnRead_loop env p d = Some r' \<and> r = resumedR c1 r' \<and> (\<forall>d'. r' = Inr d' \<longrightarrow> starts c1 d')"
      using OnRead_body_resumed [of f env c1 p d r] by blast
  qed
  from this [OF assms(1)] show ?thesis using assms(2) by blast
qed

subsection \<open>The events\<close>

text \<open>Before OpenSSL has been set up the session is not running.\<close>

definition ready :: "'s tls_conn \<Rightarrow> 's tls_conn \<Rightarrow> bool" where
  "ready c1 d \<longleftrightarrow> remembers c1 d \<and> (c_ssl d = None \<longrightarrow>
     c_state d \<noteq> TLS_CONNECTION_STATE_STARVED_SSL_CONNECT \<and> c_state d \<noteq> TLS_CONNECTION_STATE_ESTABLISHED)"

lemma starts_ready: "starts c1 d \<Longrightarrow> ready c1 d"
  by (auto simp: starts_def ready_def)

lemma ready_starts:
  "ready c1 d \<Longrightarrow> c_state d = TLS_CONNECTION_STATE_STARVED_SSL_CONNECT \<or> c_state d = TLS_CONNECTION_STATE_ESTABLISHED \<Longrightarrow>
   starts c1 d"
  by (auto simp: starts_def ready_def)

lemma Shutdown_ready: "Shutdown st d = Inr d' \<Longrightarrow> disconnected st \<Longrightarrow> remembers c1 d \<Longrightarrow> ready c1 d'"
  using Shutdown_frame [of st d d'] keeps_remembers by (auto simp: ready_def)

lemma ended_ready:
  "ShutdownError e d = Inr d' \<Longrightarrow> remembers c1 d \<Longrightarrow> ready c1 d'"
  "ShutdownRemote d = Inr d' \<Longrightarrow> remembers c1 d \<Longrightarrow> ready c1 d'"
  using Shutdown_ready [of _ "d\<lparr>c_err := e\<rparr>"] Shutdown_ready [of _ d]
  by (simp_all add: ShutdownError_def ShutdownRemote_def remembers_def)

lemma OnConnect_resumed:
  assumes "OnConnect env status read_ok (resumed c1 d) = Inr c'" "remembers c1 d"
  shows "\<exists>d'. OnConnect env status read_ok d = Inr d' \<and> c' = resumed c1 d' \<and> ready c1 d'"
proof -
  have eq: "OnConnect env status read_ok c = assertR (c_state c = TLS_CONNECTION_STATE_PRE_CONNECT)
      (if status = -1 \<or> \<not> read_ok
       then ShutdownError (ErrorFromLastUVError (env_uv_strerror env) (\<lambda>_. env_uv_last_error env) ()) (c\<lparr>c_connecting := False\<rparr>)
       else bindR (HandleStarvedConnectState env (ssl_started env c)) (\<lambda>(_, c). Inr c))" for c
    by (simp add: OnConnect_def ssl_started_def Let_def peer_ctx_def SSL_CTX_new_def X509_STORE_new_def)
  have st: "ssl_started env (resumed c1 d) = resumed c1 (ssl_started env d)"
    by (simp add: ssl_started_def)
  have s: "starts c1 (ssl_started env d)" "remembers c1 (d\<lparr>c_connecting := False\<rparr>)"
    using assms(2) by (simp_all add: starts_def ssl_started_def remembers_def)
  have pre: "c_state d = TLS_CONNECTION_STATE_PRE_CONNECT"
    using assms(1) by (simp add: eq assertR_def split: if_splits)
  show ?thesis
  proof (cases "status = -1 \<or> \<not> read_ok")
    case True
    then show ?thesis
      using assms(1) pre ended_ready(1) [OF _ s(2)] unfolding eq
      by (auto simp: shutdown_resumed resumedR_def bindR_eq_Inr_iff)
  next
    case False
    have h: "bindR (HandleStarvedConnectState env (ssl_started env (resumed c1 d))) (\<lambda>(_, c). Inr c) = Inr c'"
      using assms(1) pre False unfolding eq by simp
    then obtain b d' where d': "HandleStarvedConnectState env (ssl_started env d) = Inr (b, d')" "c' = resumed c1 d'"
      unfolding st HandleStarvedConnectState_resumed [OF s(1), THEN conjunct1] by (auto simp: bindR_eq_Inr_iff)
    then have "OnConnect env status read_ok d = Inr d'" using pre False unfolding eq by simp
    moreover have "ready c1 d'" using HandleStarvedConnectState_resumed [OF s(1)] d'(1) starts_ready by blast
    ultimately show ?thesis using d'(2) by blast
  qed
qed

lemma shake_resumed:
  assumes "starts c1 d"
  shows "shake env (resumed c1 d) = bindR (shake env d) (\<lambda>(b, d). Inr (b, resumed c1 d))
    \<and> (\<forall>b d'. shake env d = Inr (b, d') \<longrightarrow> starts c1 d')"
  using assms HandleStarvedConnectState_resumed [OF assms, of env]
  by (cases "c_state d = TLS_CONNECTION_STATE_STARVED_SSL_CONNECT") (auto simp: shake_def)

lemma deliver_resumed:
  assumes "deliver env nread (bindR r (\<lambda>(b, d). Inr (b, resumed c1 d))) = Some (Inr c')"
    "\<And>b d. r = Inr (b, d) \<Longrightarrow> starts c1 d"
  shows "\<exists>d'. deliver env nread r = Some (Inr d') \<and> c' = resumed c1 d' \<and> ready c1 d'"
proof -
  obtain go_on f where f: "r = Inr (go_on, f)" using assms(1) by (cases r) auto
  then have sf: "starts c1 f" using assms(2) by blast
  show ?thesis
  proof (cases "go_on \<and> c_state f = TLS_CONNECTION_STATE_ESTABLISHED")
    case True
    then have "OnRead_loop env (ByteArray_len nread) (resumed c1 f) = Some (Inr c')" using assms(1) f by simp
    from OnRead_loop_resumed [OF this sf] obtain r' where "OnRead_loop env (ByteArray_len nread) f = Some r'"
      "Inr c' = resumedR c1 r'" "\<forall>d'. r' = Inr d' \<longrightarrow> starts c1 d'"
      by blast
    then show ?thesis using True f starts_ready by (cases r') auto
  next
    case False
    then show ?thesis using assms(1) f sf starts_ready by (auto split: if_splits)
  qed
qed

lemma fed_resumed: "fed b st (resumed c1 d) = resumed c1 (fed b st d)"
  by (simp add: fed_def)

lemma OnRead_resumed:
  assumes "OnRead env nread buf buf_len (resumed c1 d) = Some (Inr c')" "ready c1 d"
  shows "\<exists>d'. OnRead env nread buf buf_len d = Some (Inr d') \<and> c' = resumed c1 d' \<and> ready c1 d'"
proof (cases "c_state d = TLS_CONNECTION_STATE_STARVED_SSL_CONNECT \<or> c_state d = TLS_CONNECTION_STATE_ESTABLISHED")
  case False
  then show ?thesis using assms by (auto simp: OnRead_def)
next
  case run: True
  then have s: "starts c1 d" "remembers c1 d" using ready_starts [OF assms(2)] by (auto simp: starts_def)
  show ?thesis
  proof (cases "nread = -1 \<or> nread = 0")
    case True
    then show ?thesis
      using assms(1) run ended_ready [OF _ s(2)] unfolding OnRead_def
      by (elim disjE) (auto simp: shutdown_resumed resumedR_def bindR_eq_Inr_iff Let_def split: if_splits)
  next
    case False
    then have n: "nread \<noteq> -1" "nread \<noteq> 0" by blast+
    have run': "c_state (resumed c1 d) = TLS_CONNECTION_STATE_STARVED_SSL_CONNECT
        \<or> c_state (resumed c1 d) = TLS_CONNECTION_STATE_ESTABLISHED"
      using run by simp
    obtain b st where b: "ByteArray_buf buf nread buf_len = Inr b" "bio_ptr (c_bio d) = Some st"
      and c': "deliver env nread (shake env (fed b st (resumed c1 d))) = Some (Inr c')"
      using assms(1) unfolding OnRead_eq [OF run' n] by (auto split: sum.splits option.splits)
    have "starts c1 (fed b st d)" using s by (simp add: fed_def starts_def remembers_def)
    note sh = shake_resumed [OF this, of env]
    from deliver_resumed [OF c' [unfolded fed_resumed sh [THEN conjunct1]]] sh
    show ?thesis unfolding OnRead_eq [OF run n] by (simp add: b)
  qed
qed

lemma OnDrainWriteQueue_resumed:
  assumes "OnDrainWriteQueue env (resumed c1 d) = Inr c'" "ready c1 d"
  shows "\<exists>d'. OnDrainWriteQueue env d = Inr d' \<and> c' = resumed c1 d' \<and> ready c1 d'"
proof (cases "c_state d = TLS_CONNECTION_STATE_ESTABLISHED")
  case True
  let ?d = "d\<lparr>c_wq_signal := False\<rparr>"
  have "starts c1 d" using ready_starts [OF assms(2)] True by blast
  then have s: "starts c1 ?d" by (simp add: starts_def remembers_def)
  have "c_state (resumed c1 d) = TLS_CONNECTION_STATE_ESTABLISHED" using True by simp
  from OnDrainWriteQueue_calls [OF this, of env] assms(1)
  have "with_wq [] (resumedR c1 (run_calls env (map CallWrite (c_wq d)) ?d)) = Inr c'"
    by (simp add: run_calls_resumed [OF s, THEN conjunct1])
  then obtain e where e: "run_calls env (map CallWrite (c_wq d)) ?d = Inr e" "c' = resumed c1 (e\<lparr>c_wq := []\<rparr>)"
    by (auto simp: with_wq_def resumedR_def bindR_eq_Inr_iff)
  have "starts c1 e" using run_calls_resumed [OF s] e(1) by blast
  then have "ready c1 (e\<lparr>c_wq := []\<rparr>)" by (intro starts_ready) (simp add: starts_def remembers_def)
  then show ?thesis using e OnDrainWriteQueue_calls [OF True, of env] by (simp add: with_wq_def)
next
  case False
  then have "c' = resumed c1 (d\<lparr>c_wq_signal := False\<rparr>)"
    using assms(1) by (simp add: OnDrainWriteQueue_def)
  then show ?thesis using False assms(2) by (simp add: OnDrainWriteQueue_def ready_def remembers_def)
qed

lemma tls_handle_resumed:
  assumes "tls_enabled ev (resumed c1 d)" "tls_handle env ev (resumed c1 d) = Some (Inr c')" "ready c1 d"
  shows "\<exists>d'. tls_enabled ev d \<and> tls_handle env ev d = Some (Inr d') \<and> c' = resumed c1 d' \<and> ready c1 d'"
proof -
  have en: "tls_enabled ev d" using assms(1) by (cases ev) simp_all
  have rem: "remembers c1 d" using assms(3) by (simp add: ready_def)
  have "\<exists>d'. tls_handle env ev d = Some (Inr d') \<and> c' = resumed c1 d' \<and> ready c1 d'"
  proof (cases ev)
    case (EvConnect status read_ok)
    then show ?thesis using OnConnect_resumed [OF _ rem] assms(2) by simp
  next
    case (EvRead nread buf buf_len)
    then show ?thesis using OnRead_resumed [OF _ assms(3)] assms(2) by simp
  next
    case EvDrain
    then show ?thesis using OnDrainWriteQueue_resumed [OF _ assms(3)] assms(2) by simp
  next
    case EvDisconnectRequest
    then have "resumedR c1 (OnDisconnectRequest d) = Inr c'"
      using assms(2) by (simp add: OnDisconnectRequest_def shutdown_resumed)
    then obtain d' where "OnDisconnectRequest d = Inr d'" "c' = resumed c1 d'"
      by (auto simp: resumedR_def bindR_eq_Inr_iff)
    moreover from this have "ready c1 d'"
      unfolding OnDisconnectRequest_def by (elim Shutdown_ready) (use rem in \<open>simp_all add: remembers_def\<close>)
    ultimately show ?thesis using EvDisconnectRequest by simp
  next
    case (EvWrite us buf)
    then have w: "Write env us buf (resumed c1 d) = Inr c'" "us \<noteq> c_thread_id d" "ba_wf buf" using assms(2) en by simp_all
    then have "resumedR c1 (Write env us buf d) = Inr c'"
      by (simp add: Write_def ByteArray_copy_wf split: if_splits)
    then obtain d' where d': "Write env us buf d = Inr d'" "c' = resumed c1 d'"
      by (auto simp: resumedR_def bindR_eq_Inr_iff)
    then have "ready c1 d'" using foreign_Write [OF d'(1) w(2)] assms(3) by (auto simp: ready_def remembers_def)
    then show ?thesis using d' EvWrite by simp
  next
    case (EvDisconnect us)
    then have "resumedR c1 (Disconnect us d) = Inr c'" using assms(2) by (simp add: shutdown_resumed)
    then obtain d' where d': "Disconnect us d = Inr d'" "c' = resumed c1 d'"
      by (auto simp: resumedR_def bindR_eq_Inr_iff)
    then have "ready c1 d'"
      using foreign_Disconnect [OF d'(1)] en EvDisconnect assms(3) by (auto simp: ready_def remembers_def)
    then show ?thesis using d' EvDisconnect by simp
  qed
  then show ?thesis using en by blast
qed

lemma Connect_resumed:
  "Connect env i k t opts (resumed c1 d) = (fst (Connect env i k t opts d), resumed c1 (snd (Connect env i k t opts d)))"
  by (simp add: Connect_def Let_def split: option.split)

text \<open>A run of an object that was connected before is a run of the object made anew.\<close>

lemma tls_reachable_resumed:
  "tls_reachable ok_env c1 c \<Longrightarrow> \<exists>d. tls_reachable ok_env (anew c1) d \<and> c = resumed c1 d \<and> ready c1 d"
proof (induction rule: tls_reachable.induct)
  case (start env self opts e c)
  obtain e' d where d: "Connect env True True True opts (anew c1) = (e', d)"
    by (cases "Connect env True True True opts (anew c1)")
  then have c: "c = resumed c1 d"
    using start(3) Connect_resumed [of env True True True opts c1 "anew c1"] by (simp add: resumed_anew)
  have "ready c1 (TLSConnectionThread_start self d)"
    using d by (auto simp: Connect_def Let_def TLSConnectionThread_start_def ready_def remembers_def anew_def
        split: option.splits)
  moreover have "TLSConnectionThread_start self c = resumed c1 (TLSConnectionThread_start self d)"
    by (simp add: TLSConnectionThread_start_def c)
  moreover have "tls_reachable ok_env (anew c1) (TLSConnectionThread_start self d)"
    by (rule tls_reachable.start [where env = env and e = e']) (use start(1,2) d in simp_all)
  ultimately show ?case by blast
next
  case (step c ev c')
  then obtain d where d: "tls_reachable ok_env (anew c1) d" "c = resumed c1 d" "ready c1 d" by blast
  obtain env where env: "ok_env env" "tls_enabled ev c" "tls_handle env ev c = Some (Inr c')"
    using step(2) by (blast elim: tls_stepE)
  from tls_handle_resumed [OF env(2,3) [unfolded d(2)] d(3)] obtain d' where d': "tls_enabled ev d"
    "tls_handle env ev d = Some (Inr d')" "c' = resumed c1 d'" "ready c1 d'"
    by blast
  have "tls_step ok_env d ev d'" using env(1) d'(1,2) by (intro tls_step.step)
  then show ?case using d(1) d'(3,4) by (blast intro: tls_reachable.step)
qed

subsection \<open>It is an object like a new one\<close>

lemma unset_handlers:
  "c_verify_handler b = None \<Longrightarrow> b\<lparr>c_verify_handler := None\<rparr> = b"
  "c_established_handler b = None \<Longrightarrow> b\<lparr>c_established_handler := None\<rparr> = b"
  "c_read_handler b = None \<Longrightarrow> b\<lparr>c_read_handler := None\<rparr> = b"
  "\<not> c_error_handler b \<Longrightarrow> b\<lparr>c_error_handler := False\<rparr> = b"
  "\<not> c_disconnect_handler b \<Longrightarrow> b\<lparr>c_disconnect_handler := False\<rparr> = b"
  by (cases b, simp)+

lemma tls_object_handlers:
  assumes "tls_object b" "\<forall>h log certs. vh = Some h \<longrightarrow> \<not> snd (h log certs)"
    "c_verify_handler b = None" "c_established_handler b = None" "c_read_handler b = None"
    "\<not> c_error_handler b" "\<not> c_disconnect_handler b"
  shows "tls_object (b\<lparr>c_verify_handler := vh, c_established_handler := eh, c_read_handler := rh,
    c_error_handler := er, c_disconnect_handler := di\<rparr>)"
proof -
  have 1: "tls_object (b\<lparr>c_verify_handler := vh\<rparr>)"
    using assms(1-3) tls_object.verify [of b] by (cases vh) (simp_all add: SetChainVerifyHandler_def unset_handlers)
  have 2: "tls_object (b\<lparr>c_verify_handler := vh, c_established_handler := eh\<rparr>)"
    using 1 assms(4) tls_object.established [OF 1] by (cases eh) (simp_all add: SetEstablishedHandler_def unset_handlers)
  have 3: "tls_object (b\<lparr>c_verify_handler := vh, c_established_handler := eh, c_read_handler := rh\<rparr>)"
    using 2 assms(5) tls_object.read [OF 2] by (cases rh) (simp_all add: SetReadHandler_def unset_handlers)
  have 4: "tls_object (b\<lparr>c_verify_handler := vh, c_established_handler := eh, c_read_handler := rh,
      c_error_handler := er\<rparr>)"
    using 3 assms(6) tls_object.error [OF 3] by (cases er) (simp_all add: SetErrorHandler_def unset_handlers)
  show ?thesis
    using 4 assms(7) tls_object.disconnect [OF 4] by (cases di) (simp_all add: SetDisconnectHandler_def unset_handlers)
qed

lemma anew_object:
  assumes "quiet c1" "c_wq c1 = []" "c_thread_id c1 = 0"
  shows "tls_object (anew c1)"
proof -
  let ?b = "(TLSConnection_new c1)\<lparr>c_err := c_err c1, c_connecting := c_connecting c1, c_reading := c_reading c1\<rparr>"
  have "tls_object ?b" by (intro tls_object.intros)
  moreover have "\<forall>h log certs. c_verify_handler (anew c1) = Some h \<longrightarrow> \<not> snd (h log certs)"
    using assms(1) by (auto simp: anew_def quiet_def)
  ultimately have "tls_object (?b\<lparr>c_verify_handler := c_verify_handler (anew c1),
      c_established_handler := c_established_handler (anew c1), c_read_handler := c_read_handler (anew c1),
      c_error_handler := c_error_handler c1, c_disconnect_handler := c_disconnect_handler c1\<rparr>)"
    by (rule tls_object_handlers) (simp_all add: TLSConnection_new_def)
  moreover have "anew c1 = ?b\<lparr>c_verify_handler := c_verify_handler (anew c1),
      c_established_handler := c_established_handler (anew c1), c_read_handler := c_read_handler (anew c1),
      c_error_handler := c_error_handler c1, c_disconnect_handler := c_disconnect_handler c1\<rparr>"
    using assms(2,3) by (simp add: anew_def TLSConnection_new_def)
  ultimately show ?thesis by simp
qed

text \<open>An object on which \<open>Connect\<close> failed is still an object to connect.\<close>

lemma Connect_handlers:
  "snd (Connect env i k t opts (SetChainVerifyHandler f c)) = SetChainVerifyHandler f (snd (Connect env i k t opts c))"
  "snd (Connect env i k t opts (SetEstablishedHandler g c)) = SetEstablishedHandler g (snd (Connect env i k t opts c))"
  "snd (Connect env i k t opts (SetReadHandler h c)) = SetReadHandler h (snd (Connect env i k t opts c))"
  "snd (Connect env i k t opts (SetErrorHandler c)) = SetErrorHandler (snd (Connect env i k t opts c))"
  "snd (Connect env i k t opts (SetDisconnectHandler c)) = SetDisconnectHandler (snd (Connect env i k t opts c))"
  by (simp_all add: Connect_def Let_def handler_defs split: option.split)

lemma Connect_object: "tls_object c \<Longrightarrow> tls_object (snd (Connect env i k t opts c))"
proof (induction rule: tls_object.induct)
  case (new garbage)
  let ?g = "snd (Connect env i k t opts garbage)"
  have "snd (Connect env i k t opts (TLSConnection_new garbage))
      = (TLSConnection_new ?g)\<lparr>c_err := Error_new, c_connecting := i \<and> k, c_reading := False\<rparr>"
    by (cases opts) (simp_all add: Connect_def Let_def TLSConnection_new_def)
  then show ?case by (simp add: tls_object.intros)
next
  case (left c b' b e)
  let ?c = "snd (Connect env i k t opts c)"
  have "snd (Connect env i k t opts (c\<lparr>c_err := e, c_connecting := b, c_reading := b'\<rparr>))
      = ?c\<lparr>c_err := e, c_connecting := i \<and> k \<or> b, c_reading := \<not> i \<and> b'\<rparr>"
    by (cases opts) (simp_all add: Connect_def Let_def)
  then show ?case using tls_object.left [OF left.IH] by simp
qed (auto simp: Connect_handlers intro: tls_object.intros)

subsection \<open>The property\<close>

text \<open>C8: A connection whose thread has ended can be connected again: every state of the new session is,
  but for the history of the old one, a state of the session of a new object, whose handlers have
  been told before what the old session told them.\<close>

theorem TLSConnection_reconnects:
  fixes ok_env :: "('s, 'h, 'q) tls_env \<Rightarrow> bool"
  assumes "\<forall>env. ok_env env \<longrightarrow> ssl_documented env" "tls_object c0" "tls_reachable ok_env c0 c"
    "TLSConnectionThread_end env run_ok c = Inr c1" "tls_reachable ok_env c1 c2"
  shows "\<exists>d. tls_object (anew c1) \<and> tls_reachable ok_env (anew c1) d \<and> c2 = resumed c1 d"
proof -
  have "quiet c" using tls_reachable_inv [OF assms(1-3)] by (simp add: tls_inv_def)
  then have "quiet c1 \<and> c_wq c1 = [] \<and> c_thread_id c1 = 0"
    using assms(4) by (auto simp: TLSConnectionThread_end_def Let_def quiet_def NotReached_def
        split: if_splits tls_state.splits)
  then show ?thesis using anew_object tls_reachable_resumed [OF assms(5)] by blast
qed

definition echo_ended :: "null_ssl tls_conn" where
  "echo_ended = echo_done\<lparr>c_thread_id := 0, c_log := c_log echo_done @ [LogDisconnect True]\<rparr>"

theorem TLSConnection_reconnects_witness:
  "\<exists>d. tls_reachable (\<lambda>e. e = null_env) (anew echo_ended) d
     \<and> TLSConnectionThread_start 2 (snd (Connect null_env True True True None echo_ended)) = resumed echo_ended d"
proof -
  let ?c2 = "TLSConnectionThread_start 2 (snd (Connect null_env True True True None echo_ended))"
  have "tls_reachable (\<lambda>e. e = null_env) echo_ended ?c2"
    by (rule tls_reachable.start [where env = null_env and e = "fst (Connect null_env True True True None echo_ended)"])
      simp_all
  moreover have "TLSConnectionThread_end null_env True echo_done = Inr echo_ended"
    by (simp add: TLSConnectionThread_end_def echo_ended_def echo_done_def echo_said_def echo_open_def echo_conn_def
        handler_defs TLSConnection_new_def zero_conn_def)
  ultimately show ?thesis
    using TLSConnection_reconnects [OF _ echo_conn_object echo_done_reachable] null_env_documented by blast
qed

end
