(* ===== verification/TLSQueue.thy ===== *)
theory TLSQueue
  imports TLSProperties
begin

section \<open>What other threads write\<close>

text \<open>
  The write queue over a whole run. With OpenSSL's state extended by the calls of \<open>SSL_write\<close> made so
  far (\<open>ssl_records\<close>), what other threads have written is at every moment what was taken out of the
  queue and given to OpenSSL, in order and each array once, and what still waits; what the handlers
  write from the loop's thread comes in between. What was queued before the session opened may wait
  for ever (\<open>early_writes_wait\<close>).
\<close>

subsection \<open>What OpenSSL has been given\<close>

text \<open>\<open>W\<close> reads off OpenSSL's state the arrays \<open>SSL_write\<close> was called with since the state was made.\<close>

definition ssl_records :: "('s \<Rightarrow> cell list list) \<Rightarrow> ('s, 'h, 'q) tls_env \<Rightarrow> bool" where
  "ssl_records W env \<longleftrightarrow> (\<forall>ctx. W (SSL_new env ctx) = [])
     \<and> (\<forall>s. prog_reads (\<lambda>g n out s'. W s' = W s) [] (SSL_connect env s))
     \<and> (\<forall>s len. prog_reads (\<lambda>g n out s'. W s' = W s) [] (SSL_read env s len))
     \<and> (\<forall>s bytes. prog_reads (\<lambda>g n out s'. W s' = W s @ [bytes]) [] (SSL_write env s bytes))"

definition handed :: "('s \<Rightarrow> cell list list) \<Rightarrow> 's tls_conn \<Rightarrow> cell list list" where
  "handed W c = (case c_ssl c of None \<Rightarrow> [] | Some s \<Rightarrow> W s)"

text \<open>From \<open>c\<close> to \<open>c'\<close> OpenSSL was given \<open>bs\<close>, and nothing but verifications was reported.\<close>

definition passes :: "('s \<Rightarrow> cell list list) \<Rightarrow> cell list list \<Rightarrow> 's tls_conn \<Rightarrow> 's tls_conn \<Rightarrow> bool" where
  "passes W bs c c' \<longleftrightarrow> keeps c c' \<and> handed W c' = handed W c @ bs
     \<and> (\<exists>vs. c_log c' = c_log c @ vs \<and> visible vs = [])
     \<and> (c_state c' = TLS_CONNECTION_STATE_PRE_CONNECT \<longrightarrow> c_state c = TLS_CONNECTION_STATE_PRE_CONNECT)"

lemma passes_refl [simp]: "passes W [] c c"
  by (simp add: passes_def)

lemma passes_trans: "passes W bs a b \<Longrightarrow> passes W bs' b c \<Longrightarrow> passes W (bs @ bs') a c"
  using keeps_trans by (auto simp: passes_def)

lemma shutdown_passes:
  "ShutdownError e c = Inr c' \<Longrightarrow> passes W [] c c'" "ShutdownRemote c = Inr c' \<Longrightarrow> passes W [] c c'"
  "Disconnect us c = Inr c' \<Longrightarrow> passes W [] c c'"
  using ShutdownError_frame [of e c c'] ShutdownRemote_frame [of c c'] Disconnect_frame [of us c c']
  by (auto simp: passes_def handed_def)

lemma with_ssl_passes:
  assumes "with_ssl call env c = Inr ((n, err, out), c')"
    "\<And>s. prog_reads (\<lambda>g n out s'. W s' = W s @ bs) [] (call s)"
  shows "passes W bs c c'"
proof -
  obtain s where s: "c_ssl c = Some s" and r: "run_ssl (call s) env c = Inr ((n, err, out), c')"
    using with_ssl_run [OF assms(1)] by blast
  obtain s' where "c_ssl c' = Some s'" "W s' = W s @ bs" using run_ssl_reads [OF r assms(2)] by blast
  then show ?thesis using s run_ssl_frame [OF r] by (auto simp: passes_def handed_def)
qed

lemma Write_passes:
  assumes "ssl_records W env" "Write env (c_thread_id c) buf c = Inr c'"
  shows "passes W [content buf] c c'"
proof -
  obtain n err out d where d: "with_ssl (\<lambda>s. SSL_write env s (content buf)) env c = Inr ((n, err, out), d)"
    "c' = d \<or> (\<exists>e. ShutdownError e d = Inr c') \<or> ShutdownRemote d = Inr c'"
    using Write_branches [OF assms(2)] by blast
  have "passes W [content buf] c d"
    using with_ssl_passes [OF d(1), of W "[content buf]"] assms(1) by (simp add: ssl_records_def)
  moreover have "passes W [] d c'" using d(2) shutdown_passes(1,2) passes_refl by blast
  ultimately show ?thesis using passes_trans by fastforce
qed

fun call_writes :: "tls_call \<Rightarrow> cell list list" where
  "call_writes (CallWrite buf) = [content buf]"
| "call_writes CallDisconnect = []"

lemma run_calls_passes:
  assumes "ssl_records W env"
  shows "run_calls env calls c = Inr c' \<Longrightarrow> passes W (concat (map call_writes calls)) c c'"
proof (induction calls arbitrary: c)
  case (Cons call calls)
  then obtain d where "passes W (call_writes call) c d" "run_calls env calls d = Inr c'"
    by (cases call) (auto simp: bindR_eq_Inr_iff dest: Write_passes [OF assms] shutdown_passes(3))
  then show ?case using Cons.IH passes_trans by fastforce
qed simp

subsection \<open>What the handlers write\<close>

text \<open>
  What the handlers \<open>eh\<close> and \<open>rh\<close> have written, of a session that has reported a log: each was called
  with the log of that time, and asked for its writes.
\<close>

inductive wrote ::
    "(tls_log list \<Rightarrow> tls_call list) option \<Rightarrow> (tls_log list \<Rightarrow> bytearray \<Rightarrow> tls_call list) option \<Rightarrow>
       tls_log list \<Rightarrow> cell list list \<Rightarrow> bool"
  for eh rh where
  nothing: "wrote eh rh [] []"
| verify: "wrote eh rh log own \<Longrightarrow> wrote eh rh (log @ [LogVerify certs]) own"
| established: "\<lbrakk>wrote eh rh log own; eh = Some g\<rbrakk> \<Longrightarrow>
    wrote eh rh (log @ [LogEstablished]) (own @ concat (map call_writes (g log)))"
| read: "\<lbrakk>wrote eh rh log own; rh = Some g; content buf = bytes\<rbrakk> \<Longrightarrow>
    wrote eh rh (log @ [LogRead bytes]) (own @ concat (map call_writes (g log buf)))"

abbreviation handlers_wrote :: "'s tls_conn \<Rightarrow> tls_log list \<Rightarrow> cell list list \<Rightarrow> bool" where
  "handlers_wrote c \<equiv> wrote (c_established_handler c) (c_read_handler c)"

lemma visible_Nil: "visible vs = [] \<longleftrightarrow> (\<forall>v \<in> set vs. \<exists>certs. v = LogVerify certs)"
proof (induction vs)
  case (Cons v vs)
  then show ?case by (cases v) (auto simp: visible_def)
qed (simp add: visible_def)

lemma wrote_quiet: "visible vs = [] \<Longrightarrow> wrote eh rh log own \<Longrightarrow> wrote eh rh (log @ vs) own"
proof (induction vs rule: rev_induct)
  case (snoc v vs)
  then obtain certs where "v = LogVerify certs" "visible vs = []" by (auto simp: visible_Nil)
  then show ?case using wrote.verify [of eh rh "log @ vs" own certs] snoc by simp
qed simp

lemma keeps_handlers_wrote: "keeps c c' \<Longrightarrow> handlers_wrote c' = handlers_wrote c"
  by (simp add: keeps_def)

definition own_passes :: "('s \<Rightarrow> cell list list) \<Rightarrow> 's tls_conn \<Rightarrow> 's tls_conn \<Rightarrow> bool" where
  "own_passes W c c' \<longleftrightarrow> keeps c c'
     \<and> (c_state c' = TLS_CONNECTION_STATE_PRE_CONNECT \<longrightarrow> c_state c = TLS_CONNECTION_STATE_PRE_CONNECT)
     \<and> (\<exists>bs. handed W c' = handed W c @ bs
          \<and> (\<forall>own. handlers_wrote c (c_log c) own \<longrightarrow> handlers_wrote c (c_log c') (own @ bs)))"

lemma passes_own: "passes W [] c c' \<Longrightarrow> own_passes W c c'"
  using wrote_quiet by (fastforce simp: passes_def own_passes_def)

lemma own_passes_refl [simp]: "own_passes W c c"
  by (simp add: passes_own)

lemma own_passes_trans:
  assumes "own_passes W a b" "own_passes W b c"
  shows "own_passes W a c"
proof -
  obtain bs bs' where b: "handed W b = handed W a @ bs" "handed W c = handed W b @ bs'"
    "\<forall>own. handlers_wrote a (c_log a) own \<longrightarrow> handlers_wrote a (c_log b) (own @ bs)"
    "\<forall>own. handlers_wrote b (c_log b) own \<longrightarrow> handlers_wrote b (c_log c) (own @ bs')"
    using assms by (auto simp: own_passes_def)
  have k: "keeps a b" "keeps b c" using assms by (simp_all add: own_passes_def)
  have "handlers_wrote a (c_log c) (own @ bs @ bs')" if "handlers_wrote a (c_log a) own" for own
    using b(3,4) that unfolding keeps_handlers_wrote [OF k(1)] by (metis append_assoc)
  moreover have "handed W c = handed W a @ (bs @ bs')" using b(1,2) by simp
  ultimately show ?thesis using assms keeps_trans [OF k] unfolding own_passes_def by blast
qed

lemma ended_own_passes:
  "c' = d \<or> (\<exists>e. ShutdownError e d = Inr c') \<or> ShutdownRemote d = Inr c' \<Longrightarrow> own_passes W d c'"
  using shutdown_passes(1,2) passes_own passes_refl by blast

text \<open>The handler is called for the report \<open>e\<close> and, when the session opens, in another state.\<close>

lemma handler_own_passes:
  assumes "ssl_records W env" "run_calls env calls (c\<lparr>c_state := st, c_log := c_log c @ [e]\<rparr>) = Inr c'"
    "st \<noteq> TLS_CONNECTION_STATE_PRE_CONNECT \<or> st = c_state c"
    "\<And>own. handlers_wrote c (c_log c) own \<Longrightarrow>
      handlers_wrote c (c_log c @ [e]) (own @ concat (map call_writes calls))"
  shows "own_passes W c c'"
proof -
  have p: "passes W (concat (map call_writes calls)) (c\<lparr>c_state := st, c_log := c_log c @ [e]\<rparr>) c'"
    by (rule run_calls_passes [OF assms(1,2)])
  then obtain vs where vs: "c_log c' = (c_log c @ [e]) @ vs" "visible vs = []" by (auto simp: passes_def)
  have "handlers_wrote c (c_log c') (own @ concat (map call_writes calls))"
    if "handlers_wrote c (c_log c) own" for own
    unfolding vs(1) by (rule wrote_quiet [OF vs(2) assms(4) [OF that]])
  moreover have "keeps c c'" "handed W c' = handed W c @ concat (map call_writes calls)"
    "c_state c' = TLS_CONNECTION_STATE_PRE_CONNECT \<longrightarrow> c_state c = TLS_CONNECTION_STATE_PRE_CONNECT"
    using p assms(3) by (auto simp: passes_def keeps_def handed_def)
  ultimately show ?thesis unfolding own_passes_def by blast
qed

lemma TransitionToConnectionEstablishedState_passes:
  assumes "ssl_records W env" "TransitionToConnectionEstablishedState env c = Inr c'"
  shows "own_passes W c c'"
proof (cases "c_established_handler c")
  case None
  then have "c' = c\<lparr>c_state := TLS_CONNECTION_STATE_ESTABLISHED\<rparr>"
    using assms(2) by (simp add: TransitionToConnectionEstablishedState_def)
  then show ?thesis by (intro passes_own) (simp add: passes_def keeps_def handed_def)
next
  case (Some g)
  have "run_calls env (g (c_log c)) (c\<lparr>c_state := TLS_CONNECTION_STATE_ESTABLISHED, c_log := c_log c @ [LogEstablished]\<rparr>)
      = Inr c'"
    using assms(2) Some by (simp add: TransitionToConnectionEstablishedState_def)
  then show ?thesis by (rule handler_own_passes [OF assms(1)]) (use Some in \<open>auto intro: wrote.established\<close>)
qed

lemma HandleStarvedConnectState_passes:
  assumes "ssl_records W env" "HandleStarvedConnectState env c = Inr (b, c')"
  shows "own_passes W c c'"
proof -
  obtain n err out d where w: "with_ssl (SSL_connect env) env c = Inr ((n, err, out), d)"
    and r: "n = 1 \<and> b \<and> TransitionToConnectionEstablishedState env d = Inr c'
      \<or> n \<noteq> 1 \<and> \<not> b \<and> (c' = d \<or> (\<exists>e. ShutdownError e d = Inr c') \<or> ShutdownRemote d = Inr c')"
    using HandleStarvedConnectState_branches [OF assms(2)] by blast
  have "passes W [] c d" using with_ssl_passes [OF w, of W "[]"] assms(1) by (simp add: ssl_records_def)
  moreover have "own_passes W d c'"
    using r TransitionToConnectionEstablishedState_passes [OF assms(1)] ended_own_passes by blast
  ultimately show ?thesis using passes_own own_passes_trans by blast
qed

lemma handle_read_passes:
  assumes "ssl_records W env" "(case c_read_handler d of None \<Rightarrow> Inr d
      | Some g \<Rightarrow> run_calls env (g (c_log d) p) (d\<lparr>c_log := c_log d @ [LogRead (content p)]\<rparr>)) = Inr e"
  shows "own_passes W d e"
proof (cases "c_read_handler d")
  case None
  then show ?thesis using assms(2) by simp
next
  case (Some g)
  have "run_calls env (g (c_log d) p) (d\<lparr>c_state := c_state d, c_log := c_log d @ [LogRead (content p)]\<rparr>) = Inr e"
    using assms(2) Some by simp
  then show ?thesis by (rule handler_own_passes [OF assms(1)]) (use Some in \<open>auto intro: wrote.read\<close>)
qed

lemma OnRead_loop_passes:
  fixes env :: "('s, 'h, 'q) tls_env"
  assumes "ssl_records W env" "OnRead_loop env p c = Some (Inr c')"
  shows "own_passes W c c'"
proof -
  let ?P = "\<lambda>(env :: ('s, 'h, 'q) tls_env) p c r. \<forall>c'. r = Inr c' \<longrightarrow> ssl_records W env \<longrightarrow> own_passes W c c'"
  have "?P env p c r" if "OnRead_loop env p c = Some r" for r
  proof (rule OnRead_loop_induct [where P = ?P, OF _ that], intro allI impI)
    fix f env p c r c'
    assume IH: "\<And>env p c r. f env p c = Some r \<Longrightarrow> ?P env p c r"
      and body: "OnRead_body f env p c = Some r" and r: "r = Inr c'" and rec: "ssl_records W env"
    obtain n err out d where d: "with_ssl (\<lambda>s. SSL_read env s (Capacity p)) env c = Inr ((n, err, out), d)"
      and b: "(c' = d \<or> (\<exists>e. ShutdownError e d = Inr c') \<or> ShutdownRemote d = Inr c')
        \<or> (\<exists>p' e. f env p' e = Some (Inr c') \<and> (case c_read_handler d of None \<Rightarrow> Inr d
            | Some g \<Rightarrow> run_calls env (g (c_log d) p') (d\<lparr>c_log := c_log d @ [LogRead (content p')]\<rparr>)) = Inr e)"
      using OnRead_body_branches [OF body [unfolded r]] by blast
    have cd: "own_passes W c d"
      using with_ssl_passes [OF d, of W "[]"] rec by (intro passes_own) (simp add: ssl_records_def)
    have "own_passes W d c'"
      using b
    proof (elim disjE [of "_ \<or> _ \<or> _"])
      assume "\<exists>p' e. f env p' e = Some (Inr c') \<and> (case c_read_handler d of None \<Rightarrow> Inr d
            | Some g \<Rightarrow> run_calls env (g (c_log d) p') (d\<lparr>c_log := c_log d @ [LogRead (content p')]\<rparr>)) = Inr e"
      then obtain p' e where e: "f env p' e = Some (Inr c')" "(case c_read_handler d of None \<Rightarrow> Inr d
            | Some g \<Rightarrow> run_calls env (g (c_log d) p') (d\<lparr>c_log := c_log d @ [LogRead (content p')]\<rparr>)) = Inr e"
        by blast
      have "own_passes W e c'" using IH [OF e(1)] rec by blast
      then show ?thesis using handle_read_passes [OF rec e(2)] own_passes_trans by blast
    qed (rule ended_own_passes)
    then show "own_passes W c c'" using cd own_passes_trans by blast
  qed
  from this [OF assms(2)] show ?thesis using assms(1) by blast
qed

subsection \<open>The queue over a run\<close>

text \<open>The events of a run, with the contents of the arrays other threads have written.\<close>

fun foreign_writes :: "tls_event \<Rightarrow> cell list list" where
  "foreign_writes (EvWrite us buf) = [content buf]"
| "foreign_writes _ = []"

inductive tls_written ::
    "(('s, 'h, 'q) tls_env \<Rightarrow> bool) \<Rightarrow> 's tls_conn \<Rightarrow> cell list list \<Rightarrow> 's tls_conn \<Rightarrow> bool"
  for ok_env c0 where
  start: "\<lbrakk>ok_env env; 0 < self; Connect env True True True opts c0 = (e, c)\<rbrakk> \<Longrightarrow>
    tls_written ok_env c0 [] (TLSConnectionThread_start self c)"
| step: "\<lbrakk>tls_written ok_env c0 ws c; tls_step ok_env c ev c'\<rbrakk> \<Longrightarrow>
    tls_written ok_env c0 (ws @ foreign_writes ev) c'"

lemma tls_written_run:
  "tls_run env evs c = Some c' \<Longrightarrow> tls_written (\<lambda>e. e = env) c0 ws c \<Longrightarrow>
   tls_written (\<lambda>e. e = env) c0 (ws @ concat (map foreign_writes evs)) c'"
proof (induction evs arbitrary: c ws)
  case (Cons ev evs)
  then obtain d where d: "tls_enabled ev c" "tls_handle env ev c = Some (Inr d)" "tls_run env evs d = Some c'"
    by (auto split: if_splits option.splits sum.splits)
  have "tls_step (\<lambda>e. e = env) c ev d" using d by (intro tls_step.step) simp_all
  from Cons.IH [OF d(3) tls_written.step [OF Cons.prems(2) this]] show ?case by simp
qed simp

definition queue_inv :: "('s \<Rightarrow> cell list list) \<Rightarrow> cell list list \<Rightarrow> 's tls_conn \<Rightarrow> bool" where
  "queue_inv W ws c \<longleftrightarrow> 0 < c_thread_id c
     \<and> (c_state c = TLS_CONNECTION_STATE_PRE_CONNECT \<longrightarrow> handed W c = [])
     \<and> (\<exists>passed own. ws = passed @ map content (c_wq c) \<and> handed W c \<in> shuffles passed own
          \<and> handlers_wrote c (c_log c) own)"

lemma own_passes_queue_inv:
  assumes "own_passes W c c'" "queue_inv W ws c"
    "c_state c' = TLS_CONNECTION_STATE_PRE_CONNECT \<Longrightarrow> handed W c' = handed W c"
  shows "queue_inv W ws c'"
proof -
  obtain bs where b: "handed W c' = handed W c @ bs"
    "\<forall>own. handlers_wrote c (c_log c) own \<longrightarrow> handlers_wrote c (c_log c') (own @ bs)"
    and k: "keeps c c'" and st: "c_state c' = TLS_CONNECTION_STATE_PRE_CONNECT \<longrightarrow> c_state c = TLS_CONNECTION_STATE_PRE_CONNECT"
    using assms(1) by (auto simp: own_passes_def)
  obtain passed own where q: "ws = passed @ map content (c_wq c)" "handed W c \<in> shuffles passed own"
    "handlers_wrote c (c_log c) own"
    using assms(2) by (auto simp: queue_inv_def)
  have "handed W c' \<in> shuffles passed (own @ bs)" unfolding b(1) by (rule shuffles_append_right [OF q(2)])
  moreover have "handlers_wrote c' (c_log c') (own @ bs)"
    using b(2) q(3) unfolding keeps_handlers_wrote [OF k] by blast
  moreover have "ws = passed @ map content (c_wq c')" "0 < c_thread_id c'"
    using q(1) k assms(2) by (simp_all add: keeps_def queue_inv_def)
  moreover have "c_state c' = TLS_CONNECTION_STATE_PRE_CONNECT \<longrightarrow> handed W c' = []"
    using assms(2,3) st by (auto simp: queue_inv_def)
  ultimately show ?thesis unfolding queue_inv_def by blast
qed

lemma own_passes_pre:
  "own_passes W c c' \<Longrightarrow> c_state c' = TLS_CONNECTION_STATE_PRE_CONNECT \<Longrightarrow>
   c_state c = TLS_CONNECTION_STATE_PRE_CONNECT"
  by (simp add: own_passes_def)

lemma passes_queue_inv: "passes W [] c c' \<Longrightarrow> queue_inv W ws c \<Longrightarrow> queue_inv W ws c'"
  by (rule own_passes_queue_inv [OF passes_own]) (simp_all add: passes_def)

lemma OnConnect_passes:
  assumes "ssl_records W env" "OnConnect env status read_ok c = Inr c'" "handed W c = []"
  shows "own_passes W c c' \<and> c_state c' \<noteq> TLS_CONNECTION_STATE_PRE_CONNECT"
proof -
  have b: "passes W [] (c\<lparr>c_connecting := False\<rparr>) c' \<and> disconnected (c_state c')
      \<or> own_passes W (ssl_started env c) c'"
    using OnConnect_branches [OF assms(2)] shutdown_passes(1) ShutdownError_frame
      HandleStarvedConnectState_passes [OF assms(1)] by blast
  moreover have "passes W [] c (c\<lparr>c_connecting := False\<rparr>)" by (simp add: passes_def keeps_def handed_def)
  moreover have "passes W [] c (ssl_started env c)"
    using assms(1,3) by (simp add: passes_def keeps_def ssl_started_def ssl_records_def handed_def)
  ultimately have "own_passes W c c'" using own_passes_trans passes_own by blast
  moreover have "c_state c' \<noteq> TLS_CONNECTION_STATE_PRE_CONNECT"
    using b own_passes_pre [of W "ssl_started env c" c'] by (auto simp: ssl_started_def)
  ultimately show ?thesis by blast
qed

lemma OnRead_passes:
  assumes "ssl_records W env" "OnRead env nread buf buf_len c = Some (Inr c')"
  shows "own_passes W c c'"
proof (cases "(c_state c = TLS_CONNECTION_STATE_STARVED_SSL_CONNECT \<or> c_state c = TLS_CONNECTION_STATE_ESTABLISHED)
    \<and> nread \<noteq> -1 \<and> nread \<noteq> 0")
  case False
  from OnRead_ends [OF this assms(2)] show ?thesis by (rule ended_own_passes)
next
  case True
  then have "c_state c = TLS_CONNECTION_STATE_STARVED_SSL_CONNECT \<or> c_state c = TLS_CONNECTION_STATE_ESTABLISHED"
    "nread \<noteq> -1" "nread \<noteq> 0" by blast+
  from OnRead_data [OF this assms(2)] obtain b st go_on e where e: "shake env (fed b st c) = Inr (go_on, e)"
      "(if go_on \<and> c_state e = TLS_CONNECTION_STATE_ESTABLISHED
        then OnRead_loop env (ByteArray_len nread) e = Some (Inr c') else e = c')"
    by blast
  have "own_passes W c (fed b st c)" by (intro passes_own) (simp add: fed_def passes_def keeps_def handed_def)
  moreover have "own_passes W (fed b st c) e"
    using e(1) HandleStarvedConnectState_passes [OF assms(1)] by (auto simp: shake_def split: if_splits)
  moreover have "own_passes W e c'" using e(2) OnRead_loop_passes [OF assms(1)] by (auto split: if_splits)
  ultimately show ?thesis using own_passes_trans by blast
qed

lemma OnDrainWriteQueue_queue:
  assumes "ssl_records W env" "OnDrainWriteQueue env c = Inr c'" "queue_inv W ws c"
  shows "queue_inv W ws c'"
proof (cases "c_state c = TLS_CONNECTION_STATE_ESTABLISHED")
  case False
  then have "c' = c\<lparr>c_wq_signal := False\<rparr>" using assms(2) by (simp add: OnDrainWriteQueue_def)
  then show ?thesis using assms(3) by (simp add: queue_inv_def handed_def)
next
  case True
  obtain d where d: "run_calls env (map CallWrite (c_wq c)) (c\<lparr>c_wq_signal := False\<rparr>) = Inr d" "c' = d\<lparr>c_wq := []\<rparr>"
    using assms(2) unfolding OnDrainWriteQueue_calls [OF True] with_wq_def by (auto simp: bindR_eq_Inr_iff)
  have p: "passes W (map content (c_wq c)) (c\<lparr>c_wq_signal := False\<rparr>) d"
    using run_calls_passes [OF assms(1) d(1)] by (simp add: comp_def)
  obtain passed own where q: "ws = passed @ map content (c_wq c)" "handed W c \<in> shuffles passed own"
    "handlers_wrote c (c_log c) own"
    using assms(3) by (auto simp: queue_inv_def)
  have h: "handed W c' = handed W c @ map content (c_wq c)" using p d(2) by (simp add: passes_def handed_def)
  have "handed W c' \<in> shuffles ws own"
    unfolding h q(1) by (rule shuffles_append_left [OF q(2)])
  moreover have "c_state c' \<noteq> TLS_CONNECTION_STATE_PRE_CONNECT" "0 < c_thread_id c'"
    using p d(2) True assms(3) by (auto simp: passes_def keeps_def queue_inv_def)
  moreover have "handlers_wrote c' (c_log c') own"
  proof -
    obtain vs where "c_log c' = c_log c @ vs" "visible vs = []" using p d(2) by (auto simp: passes_def)
    moreover have "handlers_wrote c' = handlers_wrote c" using p d(2) by (simp add: passes_def keeps_def)
    ultimately show ?thesis using wrote_quiet q(3) by simp
  qed
  moreover have "ws = ws @ map content (c_wq c')" using d(2) by simp
  ultimately show ?thesis unfolding queue_inv_def by blast
qed

lemma tls_handle_queue:
  assumes "ssl_records W env" "tls_enabled ev c" "tls_handle env ev c = Some (Inr c')" "queue_inv W ws c"
  shows "queue_inv W (ws @ foreign_writes ev) c'"
proof (cases ev)
  case (EvConnect status read_ok)
  then have c: "OnConnect env status read_ok c = Inr c'" using assms(3) by simp
  then have "handed W c = []" using OnConnect_branches [OF c] assms(4) by (simp add: queue_inv_def)
  from OnConnect_passes [OF assms(1) c this] have "queue_inv W ws c'"
    by (intro own_passes_queue_inv [OF _ assms(4)]) simp_all
  then show ?thesis using EvConnect by simp
next
  case (EvRead nread buf buf_len)
  then have r: "OnRead env nread buf buf_len c = Some (Inr c')" using assms(3) by simp
  have o: "own_passes W c c'" by (rule OnRead_passes [OF assms(1) r])
  have "c_state c' = TLS_CONNECTION_STATE_PRE_CONNECT \<Longrightarrow> c' = c"
    using own_passes_pre [OF o] r by (simp add: OnRead_def)
  then show ?thesis using own_passes_queue_inv [OF o assms(4)] EvRead by auto
next
  case EvDrain
  then show ?thesis using OnDrainWriteQueue_queue [OF assms(1) _ assms(4)] assms(3) by simp
next
  case EvDisconnectRequest
  then have "Shutdown TLS_CONNECTION_STATE_DISCONNECTED_LOCAL (c\<lparr>c_dc_signal := False\<rparr>) = Inr c'"
    using assms(3) by (simp add: OnDisconnectRequest_def)
  from Shutdown_frame [OF this] have "passes W [] c c'" by (simp add: passes_def keeps_def handed_def)
  from passes_queue_inv [OF this assms(4)] show ?thesis using EvDisconnectRequest by simp
next
  case (EvWrite us buf)
  then have w: "Write env us buf c = Inr c'" "us \<noteq> c_thread_id c" "ba_wf buf" using assms(2,3) by simp_all
  have "\<exists>sig. c' = c\<lparr>c_wq := c_wq c @ [buf], c_wq_signal := sig\<rparr>"
    using w assms(4)
    by (auto simp: Write_def ByteArray_copy_wf queue_inv_def split: if_splits intro: exI [of _ "c_wq_signal c"] exI [of _ True])
  then have q: "c_wq c' = c_wq c @ [buf]" "handed W c' = handed W c" "handlers_wrote c' = handlers_wrote c"
    "c_state c' = c_state c" "c_thread_id c' = c_thread_id c" "c_log c' = c_log c"
    by (auto simp: handed_def)
  show ?thesis using assms(4) EvWrite unfolding queue_inv_def q by auto
next
  case (EvDisconnect us)
  then show ?thesis using passes_queue_inv [OF shutdown_passes(3) assms(4)] assms(3) by simp
qed

lemma tls_written_inv:
  assumes "\<forall>env. ok_env env \<longrightarrow> ssl_records W env" "c_wq c0 = []" "c_ssl c0 = None" "c_log c0 = []"
    "tls_written ok_env c0 ws c"
  shows "queue_inv W ws c"
  using assms(5)
proof (induction rule: tls_written.induct)
  case (start env self opts e c)
  then have "c_wq c = []" "c_ssl c = None" "c_log c = []"
    using assms(2,3,4) by (auto simp: Connect_def Let_def split: option.splits)
  then show ?case
    using start(2) by (simp add: queue_inv_def TLSConnectionThread_start_def handed_def wrote.nothing)
next
  case (step ws c ev c')
  then show ?case using tls_handle_queue assms(1) by (blast elim: tls_stepE)
qed

subsection \<open>The property\<close>

lemma tls_object_written:
  assumes "\<forall>env. ok_env env \<longrightarrow> ssl_records W env" "tls_object c0" "tls_written ok_env c0 ws c"
  shows "queue_inv W ws c"
  using tls_written_inv [OF assms(1) _ _ _ assms(3)] tls_object_fresh [OF assms(2)] tls_object_new [OF assms(2)]
  by simp

text \<open>C4: What other threads have written is, at every moment of a run, what OpenSSL has been given of it, in
  order and each array once, followed by what waits in the queue; between it come only the writes the
  handlers asked for, in their order.\<close>

theorem TLSConnection_writes_in_order:
  assumes "\<forall>env. ok_env env \<longrightarrow> ssl_records W env" "tls_object c0" "tls_written ok_env c0 ws c"
  shows "\<exists>passed own. ws = passed @ map content (c_wq c) \<and> handed W c \<in> shuffles passed own
    \<and> wrote (c_established_handler c) (c_read_handler c) (c_log c) own"
  using tls_object_written [OF assms] by (simp add: queue_inv_def)

text \<open>An OpenSSL whose state is the list of what it was given to write, and a connection without handlers.\<close>

definition record_env :: "(cell list list, sample_h, 64 word list) tls_env" where
  "record_env = \<lparr>SSL_new = (\<lambda>ctx. []), SSL_connect = (\<lambda>s. SSLReturn 1 SSL_ERROR_NONE [] s),
     SSL_read = (\<lambda>s len. SSLReturn (-1) SSL_ERROR_WANT_READ [] s),
     SSL_write = (\<lambda>s bytes. BioWrite bytes (\<lambda>n. SSLReturn n SSL_ERROR_SYSCALL [] (s @ [bytes]))),
     SSL_error_num = (\<lambda>e. 5), BIO_retry_read = 1, env_x509 = sample_api,
     env_default_verify = (\<lambda>store chain. 0), env_crypto = sample_crypto,
     env_crypto_queue = [], env_system_verify = (\<lambda>chain opts. False), env_time = 0,
     env_uv_strerror = (\<lambda>e. ''end of file''), env_uv_last_error = \<lparr>uv_code = 1, uv_sys_errno = 0\<rparr>,
     env_uv_write_ok = True, UV_EOF = 1\<rparr>"

lemma record_env_records: "ssl_records (\<lambda>s. s) record_env"
  by (simp add: ssl_records_def record_env_def)

definition record_conn :: "cell list list tls_conn" where
  "record_conn = TLSConnection_new zero_conn"

definition record_start :: "cell list list tls_conn" where
  "record_start = TLSConnectionThread_start 1 (snd (Connect record_env True True True None record_conn))"

definition record_events :: "tls_event list" where
  "record_events = [EvConnect 0 True, EvWrite 2 (sample_ba ''a''), EvWrite 2 (sample_ba ''b''), EvDrain,
     EvWrite 3 (sample_ba ''c'')]"

lemma record_run:
  "\<exists>c. tls_run record_env record_events record_start = Some c \<and> c_wq c = [sample_ba ''c'']
     \<and> c_ssl c = Some [map Some ''a'', map Some ''b'']"
  by (simp add: record_events_def record_start_def record_conn_def record_env_def tls_eval Write_def UVBio_Write_def
      ByteArray_copy_wf OnDrainWriteQueue_def)

theorem TLSConnection_writes_in_order_witness:
  "\<exists>c. tls_run record_env record_events record_start = Some c \<and> c_wq c = [sample_ba ''c'']
     \<and> (\<exists>passed own. map (map Some) [''a'', ''b'', ''c''] = passed @ map content (c_wq c)
          \<and> handed (\<lambda>s. s) c \<in> shuffles passed own
          \<and> wrote (c_established_handler c) (c_read_handler c) (c_log c) own)"
proof -
  obtain c where c: "tls_run record_env record_events record_start = Some c" "c_wq c = [sample_ba ''c'']"
    using record_run by blast
  have "tls_written (\<lambda>e. e = record_env) record_conn [] record_start"
    unfolding record_start_def
    by (rule tls_written.start [where env = record_env
          and e = "fst (Connect record_env True True True None record_conn)"]) simp_all
  from tls_written_run [OF c(1) this]
  have w: "tls_written (\<lambda>e. e = record_env) record_conn (map (map Some) [''a'', ''b'', ''c'']) c"
    by (simp add: record_events_def content_def cells_def sample_ba_def)
  have o: "tls_object record_conn" unfolding record_conn_def by (rule tls_object.new)
  show ?thesis
    using TLSConnection_writes_in_order [OF _ o w, of "\<lambda>s. s"] record_env_records c by blast
qed

subsection \<open>What is queued too early\<close>

text \<open>Steps of a run in which no other thread writes.\<close>

definition unwritten :: "(('s, 'h, 'q) tls_env \<Rightarrow> bool) \<Rightarrow> 's tls_conn \<Rightarrow> 's tls_conn \<Rightarrow> bool" where
  "unwritten ok_env c c' \<longleftrightarrow> (\<exists>ev. tls_step ok_env c ev c' \<and> (\<forall>us buf. ev \<noteq> EvWrite us buf))"

lemma unwritten_queue:
  fixes ok_env :: "('s, 'h, 'q) tls_env \<Rightarrow> bool"
  assumes "(unwritten ok_env)\<^sup>*\<^sup>* c c'" "\<not> c_wq_signal c"
  shows "c_wq c' = c_wq c \<and> \<not> c_wq_signal c'"
  using assms(1)
proof induction
  case (step d e)
  then obtain env :: "('s, 'h, 'q) tls_env" and ev where e: "tls_enabled ev d" "tls_handle env ev d = Some (Inr e)" "\<forall>us buf. ev \<noteq> EvWrite us buf"
    by (auto simp: unwritten_def tls_step.simps)
  moreover have "ev \<noteq> EvDrain" using e(1) step.IH by auto
  ultimately show ?case using tls_handle_queue_kept step.IH by metis
qed (use assms(2) in simp)

text \<open>C12: What other threads write before the session is established may wait for ever: when the loop has answered
  their wake-up in another state, the whole queue stays as it is through everything that follows, the
  opening of the session and the data included, and no wake-up is outstanding, until a thread writes again.\<close>

theorem early_writes_wait:
  fixes ok_env :: "('s, 'h, 'q) tls_env \<Rightarrow> bool"
  assumes "tls_step ok_env c EvDrain c1" "c_state c \<noteq> TLS_CONNECTION_STATE_ESTABLISHED"
    "(unwritten ok_env)\<^sup>*\<^sup>* c1 c2"
  shows "c_wq c2 = c_wq c \<and> \<not> c_wq_signal c2"
proof -
  obtain env :: "('s, 'h, 'q) tls_env" where "OnDrainWriteQueue env c = Inr c1" using assms(1) by (auto simp: tls_step.simps)
  from OnDrainWriteQueue_frame [OF this] have "c_wq c1 = c_wq c" "\<not> c_wq_signal c1" using assms(2) by simp_all
  then show ?thesis using unwritten_queue [OF assms(3)] by simp
qed

text \<open>A thread writes while the connection is being made; the session opens, and the array still waits.\<close>

definition early_written :: "cell list list tls_conn" where
  "early_written = record_start\<lparr>c_wq := [sample_ba ''a''], c_wq_signal := True\<rparr>"

theorem early_writes_wait_witness:
  "\<exists>c2. tls_run record_env [EvWrite 2 (sample_ba ''a''), EvDrain, EvConnect 0 True] record_start = Some c2
     \<and> c_state c2 = TLS_CONNECTION_STATE_ESTABLISHED \<and> c_wq c2 = [sample_ba ''a''] \<and> \<not> c_wq_signal c2"
proof -
  let ?c1 = "early_written\<lparr>c_wq_signal := False\<rparr>"
  have w: "tls_enabled (EvWrite 2 (sample_ba ''a'')) record_start"
    "Write record_env 2 (sample_ba ''a'') record_start = Inr early_written"
    by (simp_all add: early_written_def record_start_def record_conn_def record_env_def tls_eval Write_def ByteArray_copy_wf)
  have d: "tls_enabled EvDrain early_written" "OnDrainWriteQueue record_env early_written = Inr ?c1"
    by (simp_all add: early_written_def record_start_def record_conn_def tls_eval OnDrainWriteQueue_def)
  obtain c2 where c2: "tls_enabled (EvConnect 0 True) ?c1" "OnConnect record_env 0 True ?c1 = Inr c2"
    "c_state c2 = TLS_CONNECTION_STATE_ESTABLISHED"
    by (simp add: early_written_def record_start_def record_conn_def record_env_def tls_eval)
  have "tls_step (\<lambda>e. e = record_env) early_written EvDrain ?c1"
    by (rule tls_step.step [OF refl d(1)]) (simp add: d(2))
  moreover have "unwritten (\<lambda>e. e = record_env) ?c1 c2"
    unfolding unwritten_def by (rule exI [of _ "EvConnect 0 True"]) (use c2 in \<open>simp add: tls_step.simps del: tls_enabled.simps\<close>)
  moreover have "c_state early_written \<noteq> TLS_CONNECTION_STATE_ESTABLISHED"
    by (simp add: early_written_def record_start_def tls_eval)
  ultimately have "c_wq c2 = c_wq early_written \<and> \<not> c_wq_signal c2" using early_writes_wait by blast
  moreover have "c_wq early_written = [sample_ba ''a'']" by (simp add: early_written_def)
  ultimately show ?thesis using w d c2 by (simp del: tls_enabled.simps)
qed

end
