(* ===== verification/Demo.thy ===== *)
theory Demo
  imports TLSTrust TLSQueue
begin

section \<open>The demo program\<close>

text \<open>
  \<open>src/demo.cpp\<close>: a client that asks the server www.google.com for a page. Its handlers are those of
  \<open>main\<close>; the verification handler asks the system's verifier, here that of Unix. What the handlers
  print, the timer loop that keeps the process alive and the address are left out.
\<close>

subsection \<open>The handlers\<close>

definition demo_request :: string where
  "demo_request = ''GET / HTTP/1.1'' @ [CHR 0x0D, CHR 0x0A] @ ''Host: www.google.com'' @ [CHR 0x0D, CHR 0x0A]
     @ ''Connection: close'' @ [CHR 0x0D, CHR 0x0A, CHR 0x0D, CHR 0x0A]"

definition demo_verify ::
    "('h, 'z) pem_api_scheme \<Rightarrow> 'h list \<Rightarrow> tls_log list \<Rightarrow> x509cert list \<Rightarrow> bool \<times> bool" where
  "demo_verify api system_verifier log chain =
     (let opts = \<lparr>opt_dns_name = ''www.google.com'', opt_time = 0\<rparr>
      in (VerifyChain api system_verifier chain opts, False))"

text \<open>The constructor reads the literal up to its terminator.\<close>

definition demo_established :: "tls_log list \<Rightarrow> tls_call list" where
  "demo_established log =
     (case ByteArray_buf (Some (map Some demo_request)) (int (length demo_request)) (-1) of
        Inl e \<Rightarrow> [] | Inr getReq \<Rightarrow> [CallWrite getReq])"

definition demo_read :: "tls_log list \<Rightarrow> bytearray \<Rightarrow> tls_call list" where
  "demo_read log buf = []"

definition demo_conn :: "('h, 'z) pem_api_scheme \<Rightarrow> 'h list \<Rightarrow> 's tls_conn \<Rightarrow> 's tls_conn" where
  "demo_conn api system_verifier garbage =
     SetDisconnectHandler (SetErrorHandler (SetReadHandler demo_read
       (SetEstablishedHandler demo_established
         (SetChainVerifyHandler (demo_verify api system_verifier) (TLSConnection_new garbage)))))"

lemma demo_conn_facts:
  "c_verify_handler (demo_conn api v g) = Some (demo_verify api v)"
  "c_established_handler (demo_conn api v g) = Some demo_established"
  "c_read_handler (demo_conn api v g) = Some demo_read"
  "c_ssl (demo_conn api v g) = None" "c_log (demo_conn api v g) = []"
  by (simp_all add: demo_conn_def handler_defs TLSConnection_new_def)

lemma demo_conn_object: "tls_object (demo_conn api v g)"
  unfolding demo_conn_def by (intro tls_object.intros) (simp add: demo_verify_def)

lemma demo_getReq:
  "\<exists>getReq. ByteArray_buf (Some (map Some demo_request)) (int (length demo_request)) (-1) = Inr getReq
     \<and> content getReq = map Some demo_request"
  using ByteArray_buf_default [of "int (length demo_request)" "map Some demo_request"]
  by (simp add: content_def cells_def)

lemma demo_writes: "concat (map call_writes (demo_established log)) = [map Some demo_request]"
  using demo_getReq by (auto simp: demo_established_def)

subsection \<open>main\<close>

text \<open>
  \<open>main\<close> up to its loop: the handlers are set, the connection is started, and the error of \<open>Connect\<close>, if
  any, goes to \<open>std::cerr\<close>: what is printed, and the connection.
\<close>

definition demo_main ::
    "('h, 'z) pem_api_scheme \<Rightarrow> 'h list \<Rightarrow> ('s, 'k, 'q) tls_env \<Rightarrow> bool \<Rightarrow> bool \<Rightarrow> bool \<Rightarrow> 's tls_conn \<Rightarrow>
       string list \<times> 's tls_conn" where
  "demo_main api system_verifier env init_ok connect_ok thread_ok garbage =
     (let conn = demo_conn api system_verifier garbage;
          (err, conn) = Connect env init_ok connect_ok thread_ok None conn
      in (if HasError err then [''Got error from Connect: '' @ Error_String err @ [CHR 0x0A]] else [], conn))"

text \<open>It is silent exactly when everything \<open>Connect\<close> asks of libuv succeeds, and then the connection attempt
  is under way.\<close>

lemma demo_main_silent:
  "fst (demo_main api v env init_ok connect_ok thread_ok g) = [] \<longleftrightarrow> init_ok \<and> connect_ok \<and> thread_ok"
  "c_state (snd (demo_main api v env True True True g)) = TLS_CONNECTION_STATE_PRE_CONNECT"
  by (simp_all add: demo_main_def Connect_def Let_def ErrorFromLastUVError_def ErrorFromUVError_def HasError_iff)

subsection \<open>Whom it talks to\<close>

text \<open>C5: When the demo's session is established, or anything was reported to it, the server has shown a
  chain whose leaf is for the host www.google.com and which OpenSSL has verified, for a server and at
  the current time, against the roots of the Unix verifier: those of OpenSSL's default paths when the
  system's OpenSSL is built in, and otherwise the certificates of the bundle
  /etc/ssl/certs/ca-certificates.crt, in their order, up to the first thing that cannot be read. The
  constructor of the verifier ends.\<close>

theorem demo_talks_to_verified:
  assumes "\<forall>env. ok_env env \<longrightarrow> ssl_verifies V env" "pem_progress api" "files_fit fs"
  shows "\<exists>store. X509VerifierPrivate_unix api fs system = Inr store
    \<and> (case system of
         Some defaults \<Rightarrow> store = defaults
       | None \<Rightarrow> pem_reads api (case fs ''/etc/ssl/certs/ca-certificates.crt'' of None \<Rightarrow> [] | Some bytes \<Rightarrow> bytes) store)
    \<and> (\<forall>garbage c. tls_reachable ok_env (demo_conn api store garbage) c
         \<and> (c_state c = TLS_CONNECTION_STATE_ESTABLISHED \<or> visible (c_log c) \<noteq> []) \<longrightarrow>
         (\<exists>leaf rest. LogVerify (leaf # rest) \<in> set (c_log c) \<and> VerifyHostname leaf ''www.google.com''
            \<and> X509_verify_cert api
                \<lparr>vc_store = store, vc_cert = AsOpenSSLX509 api leaf,
                 vc_untrusted = map (AsOpenSSLX509 api) (leaf # rest), vc_time = std_time api,
                 vc_purpose = Some X509_PURPOSE_SSL_SERVER, vc_trust = Some X509_TRUST_SSL_SERVER\<rparr> = 1))"
proof -
  have verified: "\<exists>leaf rest. LogVerify (leaf # rest) \<in> set (c_log c) \<and> VerifyHostname leaf ''www.google.com''
      \<and> X509_verify_cert api
          \<lparr>vc_store = store, vc_cert = AsOpenSSLX509 api leaf,
           vc_untrusted = map (AsOpenSSLX509 api) (leaf # rest), vc_time = std_time api,
           vc_purpose = Some X509_PURPOSE_SSL_SERVER, vc_trust = Some X509_TRUST_SSL_SERVER\<rparr> = 1"
    if r: "tls_reachable ok_env (demo_conn api store garbage) c"
      and e: "c_state c = TLS_CONNECTION_STATE_ESTABLISHED \<or> visible (c_log c) \<noteq> []" for store garbage c
  proof -
    have "trust_inv V (demo_verify api store) c"
      by (rule tls_reachable_trust [OF assms(1) _ _ _ r]) (simp_all add: demo_conn_facts)
    then have "approved (demo_verify api store) (c_log c)"
      using e by (auto simp: trust_inv_def silent_def)
    then obtain before certs after where "c_log c = before @ LogVerify certs # after"
      "PEM_VerifyChain api store certs \<lparr>opt_dns_name = ''www.google.com'', opt_time = 0\<rparr>"
      by (auto simp: approved_def demo_verify_def VerifyChain_def)
    then show ?thesis by (fastforce simp: PEM_VerifyChain_ctx)
  qed
  show ?thesis using unix_roots [OF assms(2,3), of system] verified by blast
qed

text \<open>A server with the certificate of \<open>sample_api\<close>, made out to *.google.com, and a reader of PEM files that
  finds it in the bundle, before something that is no certificate.\<close>

definition google_api :: "sample_h x509_api" where
  "google_api = sample_api\<lparr>ASN1_STRING_to_UTF8 := \<lambda>_. Some ''*.google.com''\<rparr>"

definition google_pem :: "sample_h pem_api" where
  "google_pem = x509_api.extend google_api
     \<lparr>PEM_read_bio_X509_AUX = PEM_read_bio_X509_AUX sample_pem,
      X509_verify_cert = (\<lambda>ctx. if vc_cert ctx = Some SCert \<and> SCert \<in> set (vc_store ctx) then 1 else 0),
      std_time = 1\<rparr>"

definition google_files :: files where
  "google_files = [''/etc/ssl/certs/ca-certificates.crt'' \<mapsto> map Some ''CxA'']"

definition google_env :: "(null_ssl, sample_h, 64 word list) tls_env" where
  "google_env = strict_env\<lparr>env_x509 := google_api\<rparr>"

definition google_start :: "null_ssl tls_conn" where
  "google_start = TLSConnectionThread_start 1
     (snd (Connect google_env True True True None (demo_conn google_pem [SCert] zero_conn)))"

lemma google_cert: "FromRawDERData google_api (der_ba [Some CHR ''C'']) ByteArray_null
    = Inr (cert_of google_api (der_ba [Some CHR ''C'']) ByteArray_null)"
  by (rule FromRawDERData_wf) simp_all

lemma google_verify:
  "VerifyChain google_pem [SCert] [cert_of google_api (der_ba [Some CHR ''C'']) ByteArray_null]
     \<lparr>opt_dns_name = ''www.google.com'', opt_time = 0\<rparr>"
proof -
  have d: "d2i_X509 google_api [Some CHR ''C''] = Some SCert"
    by (simp add: google_api_def)
  have n: "DNSNames (cert_of google_api (der_ba [Some CHR ''C'']) ByteArray_null) = [''*.google.com'']"
    by (simp add: cert_of_fields DNSNames_def d) (simp add: google_api_def alt_strings_def StringFromASN1String_def)
  have h: "HostnameExprMatch ''*.google.com'' ''www.google.com''"
    by code_simp
  show ?thesis
    by (simp add: VerifyChain_def PEM_VerifyChain_ctx VerifyHostname_def n h google_pem_def x509_api.defs
        pem_api.defs AsOpenSSLX509_def d)
qed

lemma google_connect:
  "\<exists>c. tls_run google_env [EvConnect 0 True] google_start = Some c
     \<and> c_state c = TLS_CONNECTION_STATE_ESTABLISHED"
proof -
  have l: "SSLVerifyCallback_loop google_api [SCert] []
      = Inr (Some [cert_of google_api (der_ba [Some CHR ''C'']) ByteArray_null])"
    using SSLVerifyCallback_loop_certs [of "[SCert]" google_api "[]"]
    by (simp add: google_api_def encodable_def chain_cert_def)
  obtain r where r: "ByteArray_buf (Some (map Some demo_request)) (int (length demo_request)) (-1) = Inr r"
    "content r = map Some demo_request"
    using demo_getReq by blast
  have "demo_request \<noteq> []" by (simp add: demo_request_def)
  then show ?thesis
    using google_verify
    by (simp add: google_start_def google_env_def strict_env_def demo_conn_def tls_eval
        ssl_verify_cert_chain_def SSLVerifyCallback_def l
        demo_verify_def demo_established_def r Write_def UVBio_Write_def del: SSLVerifyCallback_loop.simps)
qed

lemma google_reads [simp]:
  "PEM_read_bio_X509_AUX google_pem = PEM_read_bio_X509_AUX sample_pem"
  by (simp add: google_pem_def x509_api.defs pem_api.defs)

lemma google_pem_progress: "pem_progress google_pem"
  using sample_pem_progress by (simp add: pem_progress_def)

lemma google_bundle: "pem_reads google_pem (map Some ''CxA'') [SCert]"
  by (simp, rule pem_reads.cert [where mem' = "map Some ''xA''"]) (simp_all add: pem_reads.stop)

theorem demo_talks_to_verified_witness:
  "\<exists>c leaf rest. X509VerifierPrivate_unix google_pem google_files None = Inr [SCert]
    \<and> tls_run google_env [EvConnect 0 True] google_start = Some c
    \<and> LogVerify (leaf # rest) \<in> set (c_log c) \<and> VerifyHostname leaf ''www.google.com''"
proof -
  obtain c where c: "tls_run google_env [EvConnect 0 True] google_start = Some c"
    "c_state c = TLS_CONNECTION_STATE_ESTABLISHED"
    using google_connect by blast
  have "tls_reachable (\<lambda>e. e = google_env) (demo_conn google_pem [SCert] zero_conn) google_start"
    unfolding google_start_def
    by (rule tls_reachable.start [where env = google_env
          and e = "fst (Connect google_env True True True None (demo_conn google_pem [SCert] zero_conn))"]) simp_all
  then have r: "tls_reachable (\<lambda>e. e = google_env) (demo_conn google_pem [SCert] zero_conn) c"
    by (rule tls_run_reachable [OF c(1)])
  have v: "\<forall>env. env = google_env \<longrightarrow> ssl_verifies fst env"
    using strict_env_verifies by (simp add: google_env_def ssl_verifies_def)
  have fit: "files_fit google_files" by (simp add: files_fit_def google_files_def)
  obtain store where s: "X509VerifierPrivate_unix google_pem google_files None = Inr store"
    "pem_reads google_pem (map Some ''CxA'') store"
    "\<forall>garbage c. tls_reachable (\<lambda>e. e = google_env) (demo_conn google_pem store garbage) c
         \<and> (c_state c = TLS_CONNECTION_STATE_ESTABLISHED \<or> visible (c_log c) \<noteq> []) \<longrightarrow>
         (\<exists>leaf rest. LogVerify (leaf # rest) \<in> set (c_log c) \<and> VerifyHostname leaf ''www.google.com'')"
    using demo_talks_to_verified [OF v google_pem_progress fit, of None] unfolding google_files_def by fastforce
  have "store = [SCert]" by (rule pem_reads_unique [OF s(2) google_bundle])
  then show ?thesis using s r c by blast
qed

subsection \<open>What it asks\<close>

lemma wrote_demo:
  "wrote (Some demo_established) (Some demo_read) log own \<Longrightarrow>
   own = replicate (length (filter (\<lambda>e. e = LogEstablished) log)) (map Some demo_request)"
  by (induction rule: wrote.induct)
    (auto simp: demo_writes demo_read_def replicate_append_same simp flip: replicate_Suc)

lemma tls_written_reachable: "tls_written ok_env c0 ws c \<Longrightarrow> tls_reachable ok_env c0 c"
  by (induction rule: tls_written.induct) (auto intro: tls_reachable.intros)

lemma established_once:
  "visible log = [] \<or> (\<exists>rs. visible log = [LogEstablished] @ rs \<and> list_all is_read rs) \<Longrightarrow>
   length (filter (\<lambda>e. e = LogEstablished) log) = (if LogEstablished \<in> set log then 1 else 0)"
proof -
  assume v: "visible log = [] \<or> (\<exists>rs. visible log = [LogEstablished] @ rs \<and> list_all is_read rs)"
  have f: "filter (\<lambda>e. e = LogEstablished) (visible log) = filter (\<lambda>e. e = LogEstablished) log"
    by (auto simp: visible_def intro: filter_cong)
  have "LogEstablished \<in> set (visible log) \<longleftrightarrow> LogEstablished \<in> set log" by (simp add: visible_def)
  moreover have "list_all is_read rs \<Longrightarrow> filter (\<lambda>e. e = LogEstablished) rs = []" for rs
    by (induction rs) auto
  ultimately show ?thesis using v unfolding f [symmetric] by auto
qed

lemma tls_reachable_keeps:
  "tls_reachable ok_env c0 c \<Longrightarrow>
   c_established_handler c = c_established_handler c0 \<and> c_read_handler c = c_read_handler c0"
proof (induction rule: tls_reachable.induct)
  case (start env self opts e c)
  then show ?case by (auto simp: Connect_def Let_def TLSConnectionThread_start_def split: option.splits)
next
  case (step c ev c')
  then show ?case using tls_handle_keeps by (fastforce simp: keeps_def elim: tls_stepE)
qed

text \<open>C27: The demo writes its request once, when the session is established, and nothing else.\<close>

theorem demo_asks_once:
  assumes "\<forall>env. ok_env env \<longrightarrow> ssl_documented env \<and> ssl_records W env"
    "tls_written ok_env (demo_conn api v garbage) [] c"
  shows "handed W c = (if LogEstablished \<in> set (c_log c) then [map Some demo_request] else [])"
proof -
  let ?c0 = "demo_conn api v garbage"
  have "queue_inv W [] c" using tls_object_written [OF _ demo_conn_object assms(2)] assms(1) by blast
  then have h: "wrote (c_established_handler c) (c_read_handler c) (c_log c) (handed W c)"
    by (auto simp: queue_inv_def)
  have r: "tls_reachable ok_env ?c0 c" by (rule tls_written_reachable [OF assms(2)])
  have "est_log ?c0 = [LogEstablished]" by (simp add: est_log_def demo_conn_facts)
  moreover have "(session_step (est_log ?c0))\<^sup>*\<^sup>* (Connecting, []) (session_of c)"
    using tls_reachable_inv [OF _ demo_conn_object r] assms(1) by blast
  ultimately have o: "length (filter (\<lambda>e. e = LogEstablished) (c_log c)) = (if LogEstablished \<in> set (c_log c) then 1 else 0)"
    using session_log [of "[LogEstablished]" "session_of c"] established_once by (simp add: session_of_def)
  have "c_established_handler c = Some demo_established" "c_read_handler c = Some demo_read"
    using tls_reachable_keeps [OF r] by (simp_all add: demo_conn_facts)
  then have "wrote (Some demo_established) (Some demo_read) (c_log c) (handed W c)" using h by simp
  from wrote_demo [OF this] show ?thesis unfolding o by simp
qed

definition demo_start :: "cell list list tls_conn" where
  "demo_start = TLSConnectionThread_start 1
     (snd (Connect record_env True True True None (demo_conn sample_pem [] zero_conn)))"

lemma demo_run:
  "\<exists>c. tls_run record_env [EvConnect 0 True] demo_start = Some c \<and> c_log c = [LogEstablished]"
proof -
  obtain r where "ByteArray_buf (Some (map Some demo_request)) (int (length demo_request)) (-1) = Inr r"
    "content r = map Some demo_request"
    using demo_getReq by blast
  moreover have "demo_request \<noteq> []" by (simp add: demo_request_def)
  ultimately show ?thesis
    by (simp add: demo_start_def record_env_def demo_conn_def tls_eval demo_established_def Write_def UVBio_Write_def)
qed

lemma record_env_documented: "ssl_documented record_env"
  by (auto simp: ssl_documented_def record_env_def)

theorem demo_asks_once_witness:
  "\<exists>c. tls_run record_env [EvConnect 0 True] demo_start = Some c \<and> handed (\<lambda>s. s) c = [map Some demo_request]"
proof -
  obtain c where c: "tls_run record_env [EvConnect 0 True] demo_start = Some c" "c_log c = [LogEstablished]"
    using demo_run by blast
  have "tls_written (\<lambda>e. e = record_env) (demo_conn sample_pem [] zero_conn) [] demo_start"
    unfolding demo_start_def
    by (rule tls_written.start [where env = record_env
          and e = "fst (Connect record_env True True True None (demo_conn sample_pem [] zero_conn))"]) simp_all
  from tls_written_run [OF c(1) this]
  have "tls_written (\<lambda>e. e = record_env) (demo_conn sample_pem [] zero_conn) [] c" by simp
  from demo_asks_once [OF _ this, of "\<lambda>s. s"] show ?thesis
    using record_env_records record_env_documented c by auto
qed

end
