(* ===== verification/SelfSigned.thy ===== *)
theory SelfSigned
  imports Certificates "HOL-Library.Product_Lexorder"
begin

section \<open>Certificates across the components\<close>

text \<open>
  What the operations of a certificate give together. A client certificate is made by
  \<open>GenerateSelfSignedCertificate\<close>, kept as a PKCS #12 file and read back when the client starts; and
  the validity of a certificate is the two DER times, read by \<open>ParseASN1Time\<close>, that \<open>IsValidAtTime\<close>
  compares. Dates are tuples from the year to the second, ordered lexicographically by
  \<open>Product_Lexorder\<close>.
\<close>

subsection \<open>Validity in calendar dates\<close>

type_synonym date = "int \<times> int \<times> int \<times> int \<times> int \<times> int"

fun date_seconds :: "date \<Rightarrow> int" where
  "date_seconds (y, m, d, h, mi, s) = epoch_seconds y m d h mi s"

fun date_valid :: "date \<Rightarrow> bool" where
  "date_valid (y, m, d, h, mi, s) \<longleftrightarrow> valid_date y m d h mi s"

text \<open>The DER times of a date: a \<open>GeneralizedTime\<close> and, in the years a two-digit year can stand for, a
  \<open>UTCTime\<close>.\<close>

fun der_times :: "date \<Rightarrow> asn1_time list" where
  "der_times (y, m, d, h, mi, s) = generalized_time y m d h mi s
     # (if 1950 \<le> y \<and> y \<le> 2049 then [utc_time y m d h mi s] else [])"

text \<open>Seconds since the epoch order valid dates as the calendar does.\<close>

lemma date_seconds_less:
  "date_valid a \<Longrightarrow> date_valid b \<Longrightarrow> a < b \<Longrightarrow> date_seconds a < date_seconds b"
  by (cases a; cases b) (auto intro!: epoch_seconds_less simp: less_prod_simp)

lemma date_seconds_le:
  assumes "date_valid a" "date_valid b"
  shows "date_seconds a \<le> date_seconds b \<longleftrightarrow> a \<le> b"
proof (cases a b rule: linorder_cases)
  case less
  then show ?thesis using date_seconds_less [OF assms less] by simp
next
  case greater
  then show ?thesis using date_seconds_less [OF assms(2,1) greater] by auto
qed simp

context time_parser
begin

lemma parse_der_time:
  assumes "t \<in> set (der_times a)" "date_valid a" "lo \<le> date_seconds a" "date_seconds a \<le> hi"
  shows "ParseASN1Time strptime timegm t = date_seconds a"
  using assms parse_generalized parse_utc by (cases a) (auto split: if_splits)

end

text \<open>The two times of a certificate a program can have.\<close>

lemma IsValidAtTime_der:
  assumes "x509_codec api certs keys" "obtainable_cert api c" "AsOpenSSLX509 api c = Some x"
    "X509_get_notBefore api x = Some nb" "X509_get_notAfter api x = Some na"
  shows "IsValidAtTime c t = Inr (parse_time api nb \<le> t \<and> t \<le> parse_time api na)"
proof -
  obtain der priv where c: "c = cert_of api der priv"
    using obtainable_consistent [OF assms(1,2)] by (auto simp: cert_consistent_def)
  then have "d2i_X509 api (content der) = Some x" using assms(3) by (simp add: AsOpenSSLX509_cert_of)
  then show ?thesis
    using assms(4,5) by (simp add: c cert_of_fields IsValidAtTime_def NotBeforeTime_def NotAfterTime_def)
qed

text \<open>C19: For every certificate a program can obtain, on a platform whose \<open>strptime\<close> and \<open>timegm\<close> are right
  between \<open>lo\<close> and \<open>hi\<close>: when the DER gives the dates \<open>start\<close> and \<open>expiry\<close>, each as a \<open>GeneralizedTime\<close>
  or, from 1950 to 2049, as a \<open>UTCTime\<close>, the certificate is valid at the second of a date exactly when
  that date lies between the two in the calendar, both included.\<close>

theorem IsValidAtTime_calendar:
  assumes "x509_codec api certs keys" "obtainable_cert api c" "AsOpenSSLX509 api c = Some x"
    and "time_parser (x_strptime api) (x_timegm api) lo hi"
    and "X509_get_notBefore api x = Some tb" "tb \<in> set (der_times start)" "date_valid start" "lo \<le> date_seconds start"
    and "X509_get_notAfter api x = Some ta" "ta \<in> set (der_times expiry)" "date_valid expiry" "date_seconds expiry \<le> hi"
    and "start \<le> expiry" "date_valid now"
  shows "IsValidAtTime c (date_seconds now) = Inr (start \<le> now \<and> now \<le> expiry)"
proof -
  have le: "date_seconds start \<le> date_seconds expiry" using assms(7,11,13) by (simp add: date_seconds_le)
  have "parse_time api tb = date_seconds start" "parse_time api ta = date_seconds expiry"
    unfolding parse_time_def
    by (rule time_parser.parse_der_time [OF assms(4)]; use assms le in simp)+
  then show ?thesis
    using assms by (simp add: IsValidAtTime_der [OF assms(1-3,5,9)] date_seconds_le)
qed

text \<open>The second before the leap day of 2012 ended, in a certificate valid on that day.\<close>

definition leap_day_api :: "sample_h x509_api" where
  "leap_day_api = sample_api\<lparr>X509_get_notBefore := \<lambda>_. Some (utc_time 2012 2 29 0 0 0),
     X509_get_notAfter := \<lambda>_. Some (generalized_time 2012 2 29 23 59 58)\<rparr>"

theorem IsValidAtTime_calendar_witness:
  "IsValidAtTime (encoded_cert leap_day_api SCert None) (date_seconds (2012, 2, 29, 23, 59, 59)) = Inr False"
proof -
  have codec: "x509_codec leap_day_api {SCert, SCA} {SKey}"
    using sample_x509_codec by (simp add: x509_codec_def leap_day_api_def)
  have "obtainable_cert leap_day_api (encoded_cert leap_day_api SCert None)"
    by (rule obtainable_cert.from_der [of "der_ba [Some CHR ''C'']" ByteArray_null])
       (simp_all add: FromRawDERData_wf encoded_cert_def leap_day_api_def sample_api_def)
  from IsValidAtTime_calendar [OF codec this, of SCert 0 INT32_MAX _ "(2012, 2, 29, 0, 0, 0)"
      _ "(2012, 2, 29, 23, 59, 58)" "(2012, 2, 29, 23, 59, 59)"] win.time_parser_axioms [of 0 INT32_MAX]
  show ?thesis
    by (simp add: leap_day_api_def encoded_cert_def AsOpenSSLX509_cert_of sample_api_def
        timegm_win_def [abs_def] valid_date_def days_in_month_def leap_year_def epoch_seconds_def
        days_before_year_def days_before_month_def)
qed

subsection \<open>The client's own certificate\<close>

text \<open>
  What OpenSSL makes of the self-signed \<open>X509\<close> the source builds. \<open>alts\<close> are the alternative names an
  extension holds: only that of the subject's alternative name has any, and from the value
  \<open>email:\<close> and an address it has that address. (Its syntax separates names by commas: an address with
  a comma is not read as one address, and the hypothesis does not hold for it.) The certificate that
  \<open>X509_sign\<close> makes of \<open>b\<close> with the key \<open>k\<close> has the names, the alternative names and the public key
  stored in \<open>b\<close>, its signature is verified by \<open>k\<close>, and a private key matches it when it is the key of the
  certificate. Whether it is signed by itself thus depends on the key that was stored.
\<close>

definition ext_documented ::
    "'h x509_api \<Rightarrow> ('h \<Rightarrow> (general_name_type \<times> string) list) \<Rightarrow> string \<Rightarrow> bool" where
  "ext_documented api alts email \<longleftrightarrow>
     (\<forall>b nid v ex. X509V3_EXT_conf_nid api b nid v = Some ex \<and> nid \<noteq> NID_subject_alt_name \<longrightarrow> alts ex = [])
     \<and> (email \<noteq> [] \<longrightarrow> (\<forall>b. \<exists>ex. X509V3_EXT_conf_nid api b NID_subject_alt_name (''email:'' @ email) = Some ex
           \<and> alts ex = [(GEN_EMAIL, email)]))"

definition alt_names_spell ::
    "('h, 'z) x509_api_scheme \<Rightarrow> 'h \<Rightarrow> (general_name_type \<times> string) list \<Rightarrow> bool" where
  "alt_names_spell api x names \<longleftrightarrow>
     list_all2 (\<lambda>(t, h) (t', v). t = t' \<and> ASN1_STRING_to_UTF8 api h = Some v) (X509_get_alt_names api x) names"

definition signs ::
    "'h x509_api \<Rightarrow> 'h set \<Rightarrow> ('h \<Rightarrow> (general_name_type \<times> string) list) \<Rightarrow> 'h x509_build \<Rightarrow> 'h \<Rightarrow> bool" where
  "signs api certs alts b k \<longleftrightarrow>
     X509_sign api b k EVP_sha1 \<in> certs
     \<and> name_spells api (X509_get_subject_name api (X509_sign api b k EVP_sha1)) (xb_subject b)
     \<and> name_spells api (X509_get_issuer_name api (X509_sign api b k EVP_sha1)) (xb_issuer b)
     \<and> alt_names_spell api (X509_sign api b k EVP_sha1) (concat (map alts (xb_exts b)))
     \<and> X509_get_pubkey api (X509_sign api b k EVP_sha1) = xb_pubkey b
     \<and> X509_verify api (X509_sign api b k EVP_sha1) (Some k) = 1
     \<and> (\<forall>k'. X509_get_pubkey api (X509_sign api b k EVP_sha1) = Some k' \<longrightarrow>
           X509_check_private_key api (X509_sign api b k EVP_sha1) k' > 0)"

lemma signs_own_key:
  assumes "signs api certs alts b k" "xb_pubkey b = Some k"
  shows "X509_verify api (X509_sign api b k EVP_sha1) (X509_get_pubkey api (X509_sign api b k EVP_sha1)) = 1"
    "X509_check_private_key api (X509_sign api b k EVP_sha1) k > 0"
  using assms by (simp_all add: signs_def)

lemma alts_add_ext:
  assumes "ext_documented api alts email" "nid \<noteq> NID_subject_alt_name"
  shows "concat (map alts (xb_exts (snd (add_ext api b nid v)))) = concat (map alts (xb_exts b))"
proof -
  have "X509V3_EXT_conf_nid api b nid v = Some ex \<Longrightarrow> alts ex = []" for ex
    using assms unfolding ext_documented_def by metis
  then show ?thesis by (simp add: add_ext_def split: option.split)
qed

lemma alts_add_email:
  assumes "ext_documented api alts email" "email \<noteq> []"
  shows "concat (map alts (xb_exts (snd (add_ext api b NID_subject_alt_name (''email:'' @ email)))))
    = concat (map alts (xb_exts b)) @ [(GEN_EMAIL, email)]"
proof -
  obtain ex where "X509V3_EXT_conf_nid api b NID_subject_alt_name (''email:'' @ email) = Some ex"
    "alts ex = [(GEN_EMAIL, email)]" using assms unfolding ext_documented_def by metis
  then show ?thesis by (simp add: add_ext_def)
qed

lemma self_signed_alts:
  assumes "ext_documented api alts email" "c_str email = email"
  shows "concat (map alts (xb_exts (self_signed_build api name email k)))
    = (if email = [] then [] else [(GEN_EMAIL, email)])"
proof -
  have "c_str (''email:'' @ email) = ''email:'' @ email" using assms(2) by (simp add: c_str_def)
  then show ?thesis
    using alts_add_email [OF assms(1)]
    by (cases "email = []")
       (simp_all add: self_signed_build_def Let_def X509_new_def alts_add_ext [OF assms(1)])
qed

lemma alt_strings_spell:
  "alt_names_spell api x names \<Longrightarrow>
   alt_strings api t (X509_get_alt_names api x) = filter (\<lambda>v. v \<noteq> []) (map snd (filter (\<lambda>n. fst n = t) names))"
  unfolding alt_names_spell_def
  by (induction rule: list_all2_induct) (auto simp: alt_strings_def StringFromASN1String_def)

text \<open>The generated certificate in closed form, and what it says.\<close>

lemma self_signed_cert:
  assumes "x509_codec api certs keys" "k = RSA_generate_key api 2048 RSA_F4" "x = X509_sign api (self_signed_build api name email k) k EVP_sha1"
    "x \<in> certs"
  shows "GenerateSelfSignedCertificate api name email = Inr (encoded_cert api x (Some k))"
  using Generate_eq [OF assms(1), of x name email] i2d_X509_int [OF assms(1,4)] assms(2,3)
  by (simp add: encoded_cert_def)

lemma self_signed_says:
  assumes "x509_codec api certs keys" "ext_documented api alts email"
    "signs api certs alts (self_signed_build api name email k) k" "c_str name = name" "c_str email = email"
    "x = X509_sign api (self_signed_build api name email k) k EVP_sha1"
  shows "CommonName (encoded_cert api x ko) = (if name = [] then ''Mumble User'' else name)"
    "IssuerName (encoded_cert api x ko) = (if name = [] then ''Mumble User'' else name)"
    "EmailAddress (encoded_cert api x ko) = email" "DNSNames (encoded_cert api x ko) = []"
    "IsSignedBy api (encoded_cert api x ko) (encoded_cert api x ko)"
proof -
  let ?cn = "if name = [] then ''Mumble User'' else name"
  have cn: "c_str ?cn = ?cn" using assms(4) by (simp add: c_str_def)
  have s: "x \<in> certs" "name_spells api (X509_get_subject_name api x) [(''CN'', ?cn)]"
    "name_spells api (X509_get_issuer_name api x) [(''CN'', ?cn)]"
    "alt_names_spell api x (if email = [] then [] else [(GEN_EMAIL, email)])"
    "X509_verify api x (X509_get_pubkey api x) = 1"
    using assms(3) signs_own_key(1) [OF assms(3) self_signed_build_fields(5)]
    unfolding signs_def assms(6) [symmetric] self_signed_alts [OF assms(2,5)] self_signed_build_fields cn
    by blast+
  have d: "d2i_X509 api (i2d_X509 api x) = Some x" by (rule d2i_i2d_X509 [OF assms(1) s(1)])
  have items: "ParseX509Name api (X509_get_subject_name api x) = [''CN'' \<mapsto> ?cn]"
    "ParseX509Name api (X509_get_issuer_name api x) = [''CN'' \<mapsto> ?cn]"
    using name_spells_entry [OF s(2)] name_spells_entry [OF s(3)] by auto
  show "CommonName (encoded_cert api x ko) = ?cn" "IssuerName (encoded_cert api x ko) = ?cn"
    using d items by (simp_all add: encoded_cert_def cert_of_fields CommonName_def IssuerName_def lookup_item_def)
  show "EmailAddress (encoded_cert api x ko) = email" "DNSNames (encoded_cert api x ko) = []"
    using d alt_strings_spell [OF s(4)]
    by (simp_all add: encoded_cert_def cert_of_fields EmailAddress_def DNSNames_def)
  show "IsSignedBy api (encoded_cert api x ko) (encoded_cert api x ko)"
    using d s(5) by (simp add: IsSignedBy_def encoded_cert_def AsOpenSSLX509_cert_of)
qed

text \<open>A certificate with its key, exported alone and imported again.\<close>

lemma keyed_export:
  assumes "pkcs12_codec api certs keys" "x \<in> certs" "k \<in> keys" "X509_check_private_key api x k > 0"
    and "c_str password = password"
    and "PKCS12_create api (if password = [] then None else Some password) ''Mumble Identity'' (Some k) x [] = Some p"
  shows "ExportCertificateChainAsPKCS12 api [encoded_cert api x (Some k)] password = Inr (der_ba (i2d_PKCS12 api p))"
    and "FromPKCS12 api (der_ba (i2d_PKCS12 api p)) password = Inr [encoded_cert api x (Some k)]"
proof -
  let ?c = "encoded_cert api x (Some k)"
  have codec: "x509_codec api certs keys" by (rule pkcs12_x509 [OF assms(1)])
  have c: "HasCertificate ?c" "AsOpenSSLX509 api ?c = Some x" "leaf_key api ?c = Some k"
    using d2i_i2d_X509 [OF codec assms(2)] d2i_i2d_key [OF codec assms(3)]
    by (simp_all add: encoded_cert_def HasCertificate_def HasPrivateKey_def AsOpenSSLX509_cert_of leaf_key_def)
  show "ExportCertificateChainAsPKCS12 api [?c] password = Inr (der_ba (i2d_PKCS12 api p))"
    by (rule Export_eq [OF c]) (use assms(4-6) in \<open>auto simp: extra_certs_def\<close>)
  show "FromPKCS12 api (der_ba (i2d_PKCS12 api p)) password = Inr [?c]"
    using round_trip_keyed [OF assms(1,2) _ assms(3,4) _ assms(5), of "[]"] assms(6) by simp
qed

text \<open>C18: A client certificate survives being kept in a file: what \<open>GenerateSelfSignedCertificate\<close> makes
  for a name and an address, with a new RSA key of 2048 bits and the exponent 65537 and signed with SHA-1, is
  exported with any password and imported again as the same certificate with its private key. It has the name (Mumble User for an empty one) as its common name and its issuer's,
  the address as its email address, no DNS name, is signed by itself, and was signed to be valid for
  twenty years of 365 days.\<close>

theorem self_signed_kept:
  assumes "pkcs12_codec api certs keys" "ext_documented api alts email" "k = RSA_generate_key api 2048 65537"
    and "b = self_signed_build api name email k" "signs api certs alts b k"
    and "c_str name = name" "c_str email = email" "c_str password = password"
    and "PKCS12_create api (if password = [] then None else Some password) ''Mumble Identity'' (Some k)
           (X509_sign api b k EVP_sha1) [] \<noteq> None"
  shows "\<exists>c blob. GenerateSelfSignedCertificate api name email = Inr c
    \<and> ExportCertificateChainAsPKCS12 api [c] password = Inr blob \<and> FromPKCS12 api blob password = Inr [c]
    \<and> HasPrivateKey c \<and> CommonName c = (if name = [] then ''Mumble User'' else name) \<and> IssuerName c = CommonName c
    \<and> EmailAddress c = email \<and> DNSNames c = [] \<and> IsSignedBy api c c
    \<and> xb_not_after b - xb_not_before b = 20 * (365 * 86400)"
proof -
  define x where "x = X509_sign api b k EVP_sha1"
  let ?c = "encoded_cert api x (Some k)"
  have codec: "x509_codec api certs keys" by (rule pkcs12_x509 [OF assms(1)])
  have "xb_pubkey b = Some k" unfolding assms(4) by (rule self_signed_build_fields)
  then have x: "x \<in> certs" "X509_check_private_key api x k > 0"
    using assms(5) signs_own_key(2) [OF assms(5)] by (simp_all add: signs_def x_def)
  have k: "k = RSA_generate_key api 2048 RSA_F4" "k \<in> keys"
    using generated_key [OF codec] assms(3) by (simp_all add: RSA_F4_def)
  obtain p where p: "PKCS12_create api (if password = [] then None else Some password) ''Mumble Identity''
      (Some k) x [] = Some p" using assms(9) by (auto simp: x_def)
  have gen: "GenerateSelfSignedCertificate api name email = Inr ?c"
    by (rule self_signed_cert [OF codec k(1) _ x(1)]) (simp add: x_def assms(4))
  have c: "HasPrivateKey ?c" by (simp add: encoded_cert_def HasPrivateKey_def)
  show ?thesis
    using gen c keyed_export [OF assms(1) x(1) k(2) x(2) assms(8) p] self_signed_says [OF codec assms(2) assms(5) [unfolded assms(4)] assms(6,7)]
    by (intro exI [of _ ?c] exI [of _ "der_ba (i2d_PKCS12 api p)"])
       (simp add: x_def assms(4) self_signed_build_fields)
qed

text \<open>An instance of OpenSSL that signs for the address a@b.\<close>

definition signing_api :: "sample_h x509_api" where
  "signing_api = sample_api
     \<lparr>X509_NAME_entries := \<lambda>_. [Some SEntry],
      X509_verify := \<lambda>x pk. if x = SCert \<and> pk = Some SKey then 1 else 0,
      X509_get_alt_names := \<lambda>x. if x = SCert then [(GEN_EMAIL, SObj)] else [],
      ASN1_STRING_to_UTF8 := \<lambda>h. Some (if h = SObj then ''a@b'' else ''Mumble User''),
      X509V3_EXT_conf_nid := \<lambda>_ nid _. Some (if nid = NID_subject_alt_name then SStr else SExt),
      PKCS12_create := \<lambda>pw name ko x cs. if pw = Some ''pw'' \<and> ko = Some SKey \<and> x = SCert \<and> cs = []
        then Some SP12 else None,
      PKCS12_parse := \<lambda>p pw. if p = SP12 then (1, Some SKey, Some SCert, None) else (0, None, None, None)\<rparr>"

definition sample_alts :: "sample_h \<Rightarrow> (general_name_type \<times> string) list" where
  "sample_alts ex = (if ex = SStr then [(GEN_EMAIL, ''a@b'')] else [])"

lemma signing_codec: "pkcs12_codec signing_api {SCert, SCA} {SKey}"
  by (auto simp: pkcs12_codec_def x509_codec_def signing_api_def sample_api_def split: if_splits)

lemma signing_ext: "ext_documented signing_api sample_alts ''a@b''"
  by (auto simp: ext_documented_def signing_api_def sample_alts_def)

lemma signing_signs:
  "signs signing_api {SCert, SCA} sample_alts (self_signed_build signing_api [] ''a@b'' SKey) SKey"
proof -
  have "concat (map sample_alts (xb_exts (self_signed_build signing_api [] ''a@b'' SKey))) = [(GEN_EMAIL, ''a@b'')]"
    using self_signed_alts [OF signing_ext] by (simp add: c_str_def)
  moreover have "X509_sign signing_api b k EVP_sha1 = SCert" for b k by (simp add: signing_api_def sample_api_def)
  ultimately show ?thesis
    by (simp add: signs_def name_spells_def alt_names_spell_def self_signed_build_fields c_str_def)
       (simp add: signing_api_def sample_api_def)
qed

theorem self_signed_kept_witness:
  "\<exists>c blob. GenerateSelfSignedCertificate signing_api [] ''a@b'' = Inr c
     \<and> FromPKCS12 signing_api blob ''pw'' = Inr [c] \<and> CommonName c = ''Mumble User'' \<and> EmailAddress c = ''a@b''
     \<and> HasPrivateKey c \<and> IsSignedBy signing_api c c"
proof -
  have "SKey = RSA_generate_key signing_api 2048 65537" by (simp add: signing_api_def sample_api_def)
  from self_signed_kept [OF signing_codec signing_ext this refl signing_signs, of "''pw''"]
  obtain c blob where "GenerateSelfSignedCertificate signing_api [] ''a@b'' = Inr c"
    "FromPKCS12 signing_api blob ''pw'' = Inr [c]" "CommonName c = ''Mumble User''" "EmailAddress c = ''a@b''"
    "HasPrivateKey c" "IsSignedBy signing_api c c"
    by (simp add: c_str_def signing_api_def sample_api_def) blast
  then show ?thesis by blast
qed

end
