(* ===== verification/WinVerifier.thy ===== *)
theory WinVerifier
  imports Verifiers
begin

section \<open>The Windows verifier\<close>

text \<open>
  \<open>X509VerifierPrivate\<close> of \<open>src/X509Verifier_win.cpp\<close>, which hands the chain to the system. The
  calls of wincrypt are the record \<open>win_api\<close>: \<open>'c\<close> are certificate contexts and \<open>'n\<close> chain contexts. A
  memory store is the list of the contexts added to it, and the context the first addition returns
  knows its store (its \<open>hCertStore\<close>), so it is a pair of the two. Releasing contexts is not
  modelled.
\<close>

datatype usage_match = USAGE_MATCH_TYPE_AND | USAGE_MATCH_TYPE_OR

datatype ext_key_usage =
  szOID_PKIX_KP_SERVER_AUTH | szOID_SERVER_GATED_CRYPTO | szOID_SGC_NETSCAPE

record requested_usage =
  dwType :: usage_match
  rgpszUsageIdentifier :: "ext_key_usage list"

record ssl_policy_para =
  dwAuthType_server :: bool
  pwszServerName :: "16 word list option"

record ('c, 'n) win_api =
  CertCreateCertificateContext :: "cell list \<Rightarrow> 'c option"
  CertOpenStore :: bool
  CertAddCertificateContextToStore :: "'c list \<Rightarrow> 'c \<Rightarrow> bool"
  CertGetCertificateChain :: "'c \<Rightarrow> 'c list \<Rightarrow> filetime option \<Rightarrow> requested_usage \<Rightarrow> 'n option"
  dwErrorStatus :: "'n \<Rightarrow> 32 word"
  MultiByteToWideChar_UTF8 :: "string \<Rightarrow> 16 word list"
  CertVerifyCertificateChainPolicy_SSL :: "'n \<Rightarrow> ssl_policy_para \<Rightarrow> 32 word option"

text \<open>The store with the context added to it, or \<open>None\<close> for false.\<close>

definition AddCertToStore :: "('c, 'n) win_api \<Rightarrow> 'c list \<Rightarrow> x509cert \<Rightarrow> ('c list \<times> 'c) option" where
  "AddCertToStore api store cert =
     (let buf = cert_der cert in
      case CertCreateCertificateContext api (content buf) of
        None \<Rightarrow> None
      | Some ctx \<Rightarrow>
          (let ok = CertAddCertificateContextToStore api store ctx
           in if \<not> ok then None else Some (store @ [ctx], ctx)))"

fun CreateCertContextFromChain_loop ::
    "('c, 'n) win_api \<Rightarrow> 'c list \<Rightarrow> x509cert list \<Rightarrow> 'c list option" where
  "CreateCertContextFromChain_loop api store [] = Some store"
| "CreateCertContextFromChain_loop api store (c # cs) =
     (case AddCertToStore api store c of
        None \<Rightarrow> None
      | Some (store', _) \<Rightarrow> CreateCertContextFromChain_loop api store' cs)"

text \<open>The context of the leaf with its store, or \<open>None\<close> for the null pointer. \<open>chain.at(0)\<close> throws for
  an empty chain.\<close>

definition CreateCertContextFromChain ::
    "('c, 'n) win_api \<Rightarrow> x509cert list \<Rightarrow> ('c \<times> 'c list) option res" where
  "CreateCertContextFromChain api chain =
     (if \<not> CertOpenStore api then Inr None
      else
        (case chain of
           [] \<Rightarrow> Inl OutOfBounds
         | leaf # rest \<Rightarrow>
             (case AddCertToStore api [] leaf of
                None \<Rightarrow> Inr None
              | Some (store, store_ctx) \<Rightarrow>
                  (case CreateCertContextFromChain_loop api store rest of
                     None \<Rightarrow> Inr None
                   | Some store \<Rightarrow> Inr (Some (store_ctx, store))))))"

text \<open>\<open>MultiByteToWideChar\<close> returns the number of characters with the terminating null, 0 when it
  fails: the empty list.\<close>

definition UTF16StringFromStdString :: "('c, 'n) win_api \<Rightarrow> string \<Rightarrow> 16 word list option" where
  "UTF16StringFromStdString api str =
     (let sz = length (MultiByteToWideChar_UTF8 api (c_str str))
      in if sz = 0 then None else Some (MultiByteToWideChar_UTF8 api (c_str str)))"

definition Win_VerifyChain ::
    "('c, 'n) win_api \<Rightarrow> x509cert list \<Rightarrow> verifier_options \<Rightarrow> bool res" where
  "Win_VerifyChain api chain opts =
     (if chain = [] then Inr False
      else bindR (CreateCertContextFromChain api chain) (\<lambda>created.
        case created of
          None \<Rightarrow> Inr False
        | Some (store_ctx, hCertStore) \<Rightarrow>
            (let para =
                   (if opt_dns_name opts \<noteq> []
                    then \<lparr>dwType = USAGE_MATCH_TYPE_OR,
                          rgpszUsageIdentifier = [szOID_PKIX_KP_SERVER_AUTH,
                            szOID_SERVER_GATED_CRYPTO, szOID_SGC_NETSCAPE]\<rparr>
                    else \<lparr>dwType = USAGE_MATCH_TYPE_AND, rgpszUsageIdentifier = []\<rparr>);
                 verify_time = FileTimeFromStdTimeT (word_of_int (opt_time opts))
             in case CertGetCertificateChain api store_ctx hCertStore
                       (if opt_time opts \<noteq> 0 then Some verify_time else None) para of
                  None \<Rightarrow> Inr False
                | Some chain_ctx \<Rightarrow>
                    if dwErrorStatus api chain_ctx \<noteq> 0 then Inr False
                    else if opt_dns_name opts \<noteq> []
                    then (let wide_dns_name = UTF16StringFromStdString api (opt_dns_name opts);
                              sslpara = \<lparr>dwAuthType_server = True, pwszServerName = wide_dns_name\<rparr>
                          in case CertVerifyCertificateChainPolicy_SSL api chain_ctx sslpara of
                               None \<Rightarrow> Inr False
                             | Some dwError \<Rightarrow> Inr (dwError = 0))
                    else Inr True)))"

text \<open>
  The public interface. Making the verifier first initialises OpenSSL, through a guard of its own; the
  state is that guard with the calls made, and the pointer to the verifier.
\<close>

definition InitializeSystemVerifier_win ::
    "((openssl_init_call list \<Rightarrow> openssl_init_call list)
        \<Rightarrow> 'g \<times> openssl_init_call list \<Rightarrow> 'g \<times> openssl_init_call list)
     \<Rightarrow> ('g \<times> openssl_init_call list) \<times> unit option \<Rightarrow> ('g \<times> openssl_init_call list) \<times> unit option" where
  "InitializeSystemVerifier_win uv_once_ssl st = (EnsureInitialized uv_once_ssl (fst st), Some ())"

definition SystemVerifier_win ::
    "((openssl_init_call list \<Rightarrow> openssl_init_call list)
        \<Rightarrow> 'g \<times> openssl_init_call list \<Rightarrow> 'g \<times> openssl_init_call list)
     \<Rightarrow> ((('g \<times> openssl_init_call list) \<times> unit option \<Rightarrow> ('g \<times> openssl_init_call list) \<times> unit option)
          \<Rightarrow> 'g \<times> ('g \<times> openssl_init_call list) \<times> unit option
          \<Rightarrow> 'g \<times> ('g \<times> openssl_init_call list) \<times> unit option)
     \<Rightarrow> 'g \<times> ('g \<times> openssl_init_call list) \<times> unit option
     \<Rightarrow> (unit \<times> 'g \<times> ('g \<times> openssl_init_call list) \<times> unit option) res" where
  "SystemVerifier_win uv_once_ssl uv_once st =
     (let st = uv_once (InitializeSystemVerifier_win uv_once_ssl) st
      in case snd (snd st) of None \<Rightarrow> Inl OutOfBounds | Some v \<Rightarrow> Inr (v, st))"

definition VerifyChain_win :: "('c, 'n) win_api \<Rightarrow> x509cert list \<Rightarrow> verifier_options \<Rightarrow> bool res" where
  "VerifyChain_win api chain opts = Win_VerifyChain api chain opts"

subsection \<open>Properties\<close>

text \<open>The first call makes the verifier, after OpenSSL has been initialised.\<close>

lemma SystemVerifier_win_first:
  assumes "once_law uv_once fired" "\<not> fired g" "once_law uv_once_ssl fired'" "\<not> fired' g'"
  shows "\<exists>st. SystemVerifier_win uv_once_ssl uv_once (g, (g', []), None) = Inr ((), st)
    \<and> snd (fst (snd st)) = InitializeOpenSSL [] \<and> fired (fst st)"
proof -
  obtain h where h: "uv_once (InitializeSystemVerifier_win uv_once_ssl) (g, (g', []), None)
      = (h, InitializeSystemVerifier_win uv_once_ssl ((g', []), None))" "fired h"
    by (rule once_first [OF assms(1,2)])
  moreover have "snd (uv_once_ssl InitializeOpenSSL (g', [])) = InitializeOpenSSL []"
    using assms(3,4) by (simp add: once_law_def)
  ultimately show ?thesis
    by (simp add: SystemVerifier_win_def InitializeSystemVerifier_win_def EnsureInitialized_def)
qed

lemma CreateCertContextFromChain_loop_eq:
  "CreateCertContextFromChain_loop api store cs = Some store' \<Longrightarrow>
   \<exists>ctxs. store' = store @ ctxs
     \<and> list_all2 (\<lambda>c ctx. CertCreateCertificateContext api (content (cert_der c)) = Some ctx) cs ctxs"
proof (induction cs arbitrary: store)
  case (Cons c cs)
  then obtain ctx where ctx: "AddCertToStore api store c = Some (store @ [ctx], ctx)"
    "CertCreateCertificateContext api (content (cert_der c)) = Some ctx"
    by (auto simp: AddCertToStore_def Let_def split: option.splits if_splits)
  with Cons.prems have "CreateCertContextFromChain_loop api (store @ [ctx]) cs = Some store'" by simp
  with Cons.IH obtain ctxs where "store' = (store @ [ctx]) @ ctxs"
    "list_all2 (\<lambda>c ctx. CertCreateCertificateContext api (content (cert_der c)) = Some ctx) cs ctxs"
    by blast
  with ctx(2) show ?case by (intro exI [of _ "ctx # ctxs"]) simp
qed simp

lemma CreateCertContextFromChain_SomeD:
  assumes "CreateCertContextFromChain api chain = Inr (Some (ctx, store))"
  shows "list_all2 (\<lambda>c ctx. CertCreateCertificateContext api (content (cert_der c)) = Some ctx) chain store
    \<and> store \<noteq> [] \<and> ctx = hd store"
proof -
  obtain leaf rest where chain: "chain = leaf # rest"
    using assms by (cases chain) (auto simp: CreateCertContextFromChain_def split: if_splits)
  then obtain st where leaf: "AddCertToStore api [] leaf = Some (st, ctx)"
    and rest: "CreateCertContextFromChain_loop api st rest = Some store"
    using assms by (auto simp: CreateCertContextFromChain_def split: if_splits option.splits)
  from leaf have "st = [ctx]" "CertCreateCertificateContext api (content (cert_der leaf)) = Some ctx"
    by (auto simp: AddCertToStore_def Let_def split: option.splits if_splits)
  with CreateCertContextFromChain_loop_eq [OF rest] chain show ?thesis by auto
qed

lemma chain_decision:
  "\<exists>status. (case g of
         None \<Rightarrow> Inr False
       | Some n \<Rightarrow>
           if err n \<noteq> 0 then Inr False
           else if b then (case p n of None \<Rightarrow> Inr False | Some dwError \<Rightarrow> Inr (dwError = 0))
           else Inr True) = Inr status
     \<and> (status \<longrightarrow> (\<exists>n. g = Some n \<and> err n = 0 \<and> (b \<longrightarrow> p n = Some 0)))"
  by (auto split: option.split)

lemma Win_VerifyChain_run:
  assumes "chain \<noteq> []" "CreateCertContextFromChain api chain = Inr (Some (ctx, store))"
    "t = (if opt_time opts \<noteq> 0 then Some (FileTimeFromStdTimeT (word_of_int (opt_time opts))) else None)"
    "u = (if opt_dns_name opts \<noteq> []
      then \<lparr>dwType = USAGE_MATCH_TYPE_OR, rgpszUsageIdentifier = [szOID_PKIX_KP_SERVER_AUTH,
        szOID_SERVER_GATED_CRYPTO, szOID_SGC_NETSCAPE]\<rparr>
      else \<lparr>dwType = USAGE_MATCH_TYPE_AND, rgpszUsageIdentifier = []\<rparr>)"
    "w = (if MultiByteToWideChar_UTF8 api (c_str (opt_dns_name opts)) = [] then None
      else Some (MultiByteToWideChar_UTF8 api (c_str (opt_dns_name opts))))"
  shows "Win_VerifyChain api chain opts =
    (case CertGetCertificateChain api ctx store t u of
       None \<Rightarrow> Inr False
     | Some n \<Rightarrow>
         if dwErrorStatus api n \<noteq> 0 then Inr False
         else if opt_dns_name opts \<noteq> []
         then (case CertVerifyCertificateChainPolicy_SSL api n
                      \<lparr>dwAuthType_server = True, pwszServerName = w\<rparr> of
                 None \<Rightarrow> Inr False | Some dwError \<Rightarrow> Inr (dwError = 0))
         else Inr True)"
proof -
  have wide: "UTF16StringFromStdString api (opt_dns_name opts) = w"
    by (simp add: UTF16StringFromStdString_def assms(5))
  show ?thesis
    unfolding Win_VerifyChain_def assms(2) Let_def wide assms(3) [symmetric] assms(4) [symmetric]
    using assms(1) by simp
qed

text \<open>C39: the Windows verifier never faults, and what it accepts is a non-empty chain all of whose
  certificates the system decoded, in order, whose trust status has no error at the requested time,
  the current one for 0, for the server usages when a host name is requested, and which then
  passed the SSL policy with that name. When the name is not valid UTF-8 the policy is asked with
  no name at all.\<close>

theorem Win_VerifyChain_accepts:
  "\<exists>status. Win_VerifyChain api chain opts = Inr status \<and>
    (status \<longrightarrow> (\<exists>ctxs n. chain \<noteq> []
       \<and> list_all2 (\<lambda>c ctx. CertCreateCertificateContext api (content (cert_der c)) = Some ctx) chain ctxs
       \<and> CertGetCertificateChain api (hd ctxs) ctxs
           (if opt_time opts \<noteq> 0 then Some (FileTimeFromStdTimeT (word_of_int (opt_time opts))) else None)
           (if opt_dns_name opts \<noteq> []
            then \<lparr>dwType = USAGE_MATCH_TYPE_OR, rgpszUsageIdentifier = [szOID_PKIX_KP_SERVER_AUTH,
                   szOID_SERVER_GATED_CRYPTO, szOID_SGC_NETSCAPE]\<rparr>
            else \<lparr>dwType = USAGE_MATCH_TYPE_AND, rgpszUsageIdentifier = []\<rparr>) = Some n
       \<and> dwErrorStatus api n = 0
       \<and> (opt_dns_name opts \<noteq> [] \<longrightarrow> CertVerifyCertificateChainPolicy_SSL api n
           \<lparr>dwAuthType_server = True,
            pwszServerName = (if MultiByteToWideChar_UTF8 api (c_str (opt_dns_name opts)) = [] then None
              else Some (MultiByteToWideChar_UTF8 api (c_str (opt_dns_name opts))))\<rparr> = Some 0)))"
proof (cases "chain = []")
  case True
  then show ?thesis by (auto simp: Win_VerifyChain_def)
next
  case False
  then have "\<exists>created. CreateCertContextFromChain api chain = Inr created"
    by (cases chain) (auto simp: CreateCertContextFromChain_def split: option.split)
  then obtain created where created: "CreateCertContextFromChain api chain = Inr created" by blast
  show ?thesis
  proof (cases created)
    case None
    with False created show ?thesis by (auto simp: Win_VerifyChain_def)
  next
    case (Some cs)
    obtain ctx store where cs: "cs = (ctx, store)" by (cases cs)
    define t where "t = (if opt_time opts \<noteq> 0
      then Some (FileTimeFromStdTimeT (word_of_int (opt_time opts))) else None)"
    define u where "u = (if opt_dns_name opts \<noteq> []
      then \<lparr>dwType = USAGE_MATCH_TYPE_OR, rgpszUsageIdentifier = [szOID_PKIX_KP_SERVER_AUTH,
        szOID_SERVER_GATED_CRYPTO, szOID_SGC_NETSCAPE]\<rparr>
      else \<lparr>dwType = USAGE_MATCH_TYPE_AND, rgpszUsageIdentifier = []\<rparr>)"
    define w where "w = (if MultiByteToWideChar_UTF8 api (c_str (opt_dns_name opts)) = [] then None
      else Some (MultiByteToWideChar_UTF8 api (c_str (opt_dns_name opts))))"
    have D: "list_all2 (\<lambda>c ctx. CertCreateCertificateContext api (content (cert_der c)) = Some ctx) chain store"
      "hd store = ctx"
      using CreateCertContextFromChain_SomeD [OF created [unfolded Some cs]] by simp_all
    have "(\<exists>status. Win_VerifyChain api chain opts = Inr status \<and> (status \<longrightarrow>
        (\<exists>n. CertGetCertificateChain api ctx store t u = Some n \<and> dwErrorStatus api n = 0
          \<and> (opt_dns_name opts \<noteq> [] \<longrightarrow> CertVerifyCertificateChainPolicy_SSL api n
                \<lparr>dwAuthType_server = True, pwszServerName = w\<rparr> = Some 0))))"
      unfolding Win_VerifyChain_run [OF False created [unfolded Some cs] t_def u_def w_def] by (rule chain_decision)
    then show ?thesis
      unfolding t_def [symmetric] u_def [symmetric] w_def [symmetric]
      using D False by blast
  qed
qed

definition sample_win :: "(unit, unit) win_api" where
  "sample_win = \<lparr>CertCreateCertificateContext = (\<lambda>der. if der = [Some CHR ''C''] then Some () else None),
     CertOpenStore = True, CertAddCertificateContextToStore = (\<lambda>_ _. True),
     CertGetCertificateChain = (\<lambda>_ _ _ _. Some ()), dwErrorStatus = (\<lambda>_. 0),
     MultiByteToWideChar_UTF8 = (\<lambda>_. []),
     CertVerifyCertificateChainPolicy_SSL = (\<lambda>_ p. Some (if pwszServerName p = None then 0 else 1))\<rparr>"

theorem Win_VerifyChain_accepts_witness:
  "Win_VerifyChain sample_win [encoded_cert sample_api SCert None]
       \<lparr>opt_dns_name = [CHR 0xFF], opt_time = 0\<rparr> = Inr True
   \<and> list_all2 (\<lambda>c ctx. CertCreateCertificateContext sample_win (content (cert_der c)) = Some ctx)
       [encoded_cert sample_api SCert None] [()]"
proof -
  have "Win_VerifyChain sample_win [encoded_cert sample_api SCert None]
       \<lparr>opt_dns_name = [CHR 0xFF], opt_time = 0\<rparr> = Inr True"
    by (simp add: Win_VerifyChain_def sample_win_def CreateCertContextFromChain_def AddCertToStore_def
        UTF16StringFromStdString_def Let_def encoded_cert_def)
  moreover from this have "\<exists>ctxs. list_all2 (\<lambda>c ctx. CertCreateCertificateContext sample_win
      (content (cert_der c)) = Some ctx) [encoded_cert sample_api SCert None] ctxs"
    using Win_VerifyChain_accepts [of sample_win "[encoded_cert sample_api SCert None]"
        "\<lparr>opt_dns_name = [CHR 0xFF], opt_time = 0\<rparr>"]
    by (elim exE conjE) (simp only: sum.inject simp_thms, elim exE conjE, intro exI)
  ultimately show ?thesis by (auto simp: list_all2_Cons1)
qed

end
