(* ===== verification/MacVerifier.thy ===== *)
theory MacVerifier
  imports Verifiers
begin

section \<open>The Mac OS X verifier\<close>

text \<open>
  \<open>X509VerifierPrivate\<close> of \<open>src/X509Verifier_mac.mm\<close>, which hands the chain to the Security framework.
  Its calls and those of Foundation are the record \<open>mac_api\<close>: \<open>'n\<close> are strings of Foundation, \<open>'p\<close>
  policies, \<open>'c\<close> certificates and \<open>'t\<close> trust objects; a null pointer is \<open>None\<close>. An \<open>OSStatus\<close> is an
  integer, \<open>noErr\<close> is 0. Releasing objects is not modelled.
\<close>

datatype sec_trust_result =
    kSecTrustResultInvalid
  | kSecTrustResultProceed
  | kSecTrustResultConfirm
  | kSecTrustResultDeny
  | kSecTrustResultUnspecified
  | kSecTrustResultRecoverableTrustFailure
  | kSecTrustResultFatalTrustFailure
  | kSecTrustResultOtherError

record ('n, 'p, 'c, 't) mac_api =
  NSString_initWithBytes_UTF8 :: "string \<Rightarrow> 'n option"
  SecPolicyCreateSSL :: "bool \<Rightarrow> 'n \<Rightarrow> 'p option"
  SecPolicyCreateBasicX509 :: "'p option"
  NSData_dataWithBytes :: "cell list \<Rightarrow> cell list option"
  SecCertificateCreateWithData :: "cell list \<Rightarrow> 'c option"
  SecTrustCreateWithCertificates :: "'c list \<Rightarrow> 'p \<Rightarrow> int \<times> 't option"
  SecTrustSetVerifyDate :: "'t \<Rightarrow> int \<Rightarrow> int \<times> 't"
  SecTrustEvaluate :: "'t \<Rightarrow> int \<times> sec_trust_result"

text \<open>The loop over the chain: the system's certificates, or \<open>None\<close> when it returns false.\<close>

fun Mac_VerifyChain_loop ::
    "('n, 'p, 'c, 't) mac_api \<Rightarrow> x509cert list \<Rightarrow> 'c list \<Rightarrow> 'c list option" where
  "Mac_VerifyChain_loop api [] sec_chain = Some sec_chain"
| "Mac_VerifyChain_loop api (cert # chain) sec_chain =
     (let ba = cert_der cert in
      case NSData_dataWithBytes api (content ba) of
        None \<Rightarrow> None
      | Some der \<Rightarrow>
          (case SecCertificateCreateWithData api der of
             None \<Rightarrow> None
           | Some sec_cert \<Rightarrow> Mac_VerifyChain_loop api chain (sec_chain @ [sec_cert])))"

definition Mac_policy :: "('n, 'p, 'c, 't) mac_api \<Rightarrow> verifier_options \<Rightarrow> 'p option" where
  "Mac_policy api opts =
     (if opt_dns_name opts \<noteq> []
      then (case NSString_initWithBytes_UTF8 api (opt_dns_name opts) of
              None \<Rightarrow> None
            | Some hostname \<Rightarrow> SecPolicyCreateSSL api True hostname)
      else SecPolicyCreateBasicX509 api)"

definition Mac_VerifyChain ::
    "('n, 'p, 'c, 't) mac_api \<Rightarrow> x509cert list \<Rightarrow> verifier_options \<Rightarrow> bool" where
  "Mac_VerifyChain api chain opts =
     (if chain = [] then False
      else
        (case Mac_policy api opts of
           None \<Rightarrow> False
         | Some policy \<Rightarrow>
             (case Mac_VerifyChain_loop api chain [] of
                None \<Rightarrow> False
              | Some sec_chain \<Rightarrow>
                  (case SecTrustCreateWithCertificates api sec_chain policy of
                     (err, None) \<Rightarrow> False
                   | (err, Some trust) \<Rightarrow>
                       if err \<noteq> 0 then False
                       else
                         (let (err, trust) =
                                (if opt_time opts > 0 then SecTrustSetVerifyDate api trust (opt_time opts)
                                 else (0, trust))
                          in if err \<noteq> 0 then False
                             else
                               (let (err, trust_result) = SecTrustEvaluate api trust
                                in if err \<noteq> 0 then False
                                   else
                                     (case trust_result of
                                        kSecTrustResultProceed \<Rightarrow> True
                                      | kSecTrustResultUnspecified \<Rightarrow> True
                                      | _ \<Rightarrow> False)))))))"

text \<open>The public interface; the constructor does nothing.\<close>

definition InitializeSystemVerifier_mac :: "unit option \<Rightarrow> unit option" where
  "InitializeSystemVerifier_mac system_verifier_ptr = Some ()"

definition SystemVerifier_mac ::
    "((unit option \<Rightarrow> unit option) \<Rightarrow> 'g \<times> unit option \<Rightarrow> 'g \<times> unit option) \<Rightarrow> 'g \<times> unit option \<Rightarrow>
       (unit \<times> 'g \<times> unit option) res" where
  "SystemVerifier_mac uv_once st =
     (let st = uv_once InitializeSystemVerifier_mac st
      in case snd st of None \<Rightarrow> Inl OutOfBounds | Some v \<Rightarrow> Inr (v, st))"

definition VerifyChain_mac ::
    "('n, 'p, 'c, 't) mac_api \<Rightarrow> x509cert list \<Rightarrow> verifier_options \<Rightarrow> bool" where
  "VerifyChain_mac api chain opts = Mac_VerifyChain api chain opts"

subsection \<open>Properties\<close>

text \<open>What the system makes of one certificate.\<close>

definition sec_certificate :: "('n, 'p, 'c, 't) mac_api \<Rightarrow> x509cert \<Rightarrow> 'c option" where
  "sec_certificate api c =
     Option.bind (NSData_dataWithBytes api (content (cert_der c))) (SecCertificateCreateWithData api)"

lemma Mac_VerifyChain_loop_iff:
  "Mac_VerifyChain_loop api chain acc = Some cs \<longleftrightarrow>
     (\<exists>ds. cs = acc @ ds \<and> list_all2 (\<lambda>c d. sec_certificate api c = Some d) chain ds)"
proof (induction chain arbitrary: acc)
  case (Cons c chain)
  show ?case
  proof (cases "sec_certificate api c")
    case None
    then have "Mac_VerifyChain_loop api (c # chain) acc = None"
      by (auto simp: sec_certificate_def Let_def split: option.splits Option.bind_splits)
    then show ?thesis using None by (auto simp: list_all2_Cons1)
  next
    case (Some d)
    then have "Mac_VerifyChain_loop api (c # chain) acc = Mac_VerifyChain_loop api chain (acc @ [d])"
      by (auto simp: sec_certificate_def Let_def split: option.splits Option.bind_splits)
    then show ?thesis using Some Cons.IH [of "acc @ [d]"] by (fastforce simp: list_all2_Cons1)
  qed
qed auto

text \<open>The verdict on the trust object, once the policy and the chain are made.\<close>

lemma Mac_trust:
  assumes "chain \<noteq> []" "Mac_policy api opts = Some policy" "Mac_VerifyChain_loop api chain [] = Some cs"
    and "SecTrustCreateWithCertificates api cs policy = (0, Some t)"
  shows "Mac_VerifyChain api chain opts \<longleftrightarrow>
    (\<exists>t'. (if 0 < opt_time opts then SecTrustSetVerifyDate api t (opt_time opts) = (0, t') else t' = t)
      \<and> (SecTrustEvaluate api t' = (0, kSecTrustResultProceed) \<or> SecTrustEvaluate api t' = (0, kSecTrustResultUnspecified)))"
proof -
  define step where "step = (if opt_time opts > 0 then SecTrustSetVerifyDate api t (opt_time opts) else (0, t))"
  obtain derr t' where d: "step = (derr, t')" by (cases step)
  obtain everr res where e: "SecTrustEvaluate api t' = (everr, res)" by (cases "SecTrustEvaluate api t'")
  have "Mac_VerifyChain api chain opts \<longleftrightarrow> (let (err, trust) = step in if err \<noteq> 0 then False
      else (let (err, trust_result) = SecTrustEvaluate api trust in if err \<noteq> 0 then False
        else (case trust_result of kSecTrustResultProceed \<Rightarrow> True | kSecTrustResultUnspecified \<Rightarrow> True | _ \<Rightarrow> False)))"
    unfolding Mac_VerifyChain_def assms(2,3) step_def if_not_P [OF assms(1)]
    by (simp only: option.case prod.case if_False refl simp_thms assms(4))
  also have "\<dots> \<longleftrightarrow> derr = 0 \<and> everr = 0 \<and> (res = kSecTrustResultProceed \<or> res = kSecTrustResultUnspecified)"
    by (cases res) (simp_all add: d e)
  finally have "Mac_VerifyChain api chain opts \<longleftrightarrow> derr = 0 \<and> everr = 0
      \<and> (res = kSecTrustResultProceed \<or> res = kSecTrustResultUnspecified)" .
  moreover have "(if 0 < opt_time opts then SecTrustSetVerifyDate api t (opt_time opts) = (0, u) else u = t)
      \<longleftrightarrow> derr = 0 \<and> u = t'" for u
    using d by (auto simp: step_def)
  ultimately show ?thesis by (auto simp: e)
qed

text \<open>What an accepted chain went through, with the policy as \<open>Mac_policy\<close> makes it.\<close>

lemma Mac_VerifyChain_iff:
  "Mac_VerifyChain api chain opts \<longleftrightarrow>
     chain \<noteq> [] \<and>
     (\<exists>policy cs t t'. Mac_policy api opts = Some policy
        \<and> list_all2 (\<lambda>c d. sec_certificate api c = Some d) chain cs
        \<and> SecTrustCreateWithCertificates api cs policy = (0, Some t)
        \<and> (if 0 < opt_time opts then SecTrustSetVerifyDate api t (opt_time opts) = (0, t') else t' = t)
        \<and> (SecTrustEvaluate api t' = (0, kSecTrustResultProceed) \<or> SecTrustEvaluate api t' = (0, kSecTrustResultUnspecified)))"
proof (cases "chain = [] \<or> Mac_policy api opts = None \<or> Mac_VerifyChain_loop api chain [] = None")
  case True
  then have "\<not> Mac_VerifyChain api chain opts"
    by (elim disjE) (simp_all add: Mac_VerifyChain_def split: option.split)
  moreover have "chain = [] \<or> Mac_policy api opts = None
      \<or> (\<forall>ds. \<not> list_all2 (\<lambda>c d. sec_certificate api c = Some d) chain ds)"
    using True Mac_VerifyChain_loop_iff [of api chain "[]"] by fastforce
  ultimately show ?thesis by auto
next
  case False
  then obtain policy cs where p: "Mac_policy api opts = Some policy" and cs: "Mac_VerifyChain_loop api chain [] = Some cs"
    by auto
  have uniq: "list_all2 (\<lambda>c d. sec_certificate api c = Some d) chain ds \<longleftrightarrow> ds = cs" for ds
    using Mac_VerifyChain_loop_iff [of api chain "[]" ds] cs by auto
  obtain err tr where tr: "SecTrustCreateWithCertificates api cs policy = (err, tr)" by fastforce
  show ?thesis
  proof (cases "err = 0 \<and> tr \<noteq> None")
    case False
    then have "\<not> Mac_VerifyChain api chain opts"
      by (auto simp: Mac_VerifyChain_def p cs tr split: option.split)
    then show ?thesis using False by (auto simp: p uniq tr)
  next
    case True
    then obtain t where t: "SecTrustCreateWithCertificates api cs policy = (0, Some t)" using tr by auto
    have ne: "chain \<noteq> []" using False by blast
    show ?thesis unfolding Mac_trust [OF ne p cs t] using ne by (auto simp: p uniq t)
  qed
qed

lemma sec_certificate_iff:
  "sec_certificate api c = Some d \<longleftrightarrow>
     (\<exists>der. NSData_dataWithBytes api (content (cert_der c)) = Some der \<and> SecCertificateCreateWithData api der = Some d)"
  by (auto simp: sec_certificate_def split: Option.bind_splits)

lemma Mac_policy_iff:
  "Mac_policy api opts = Some policy \<longleftrightarrow>
     (if opt_dns_name opts = [] then SecPolicyCreateBasicX509 api = Some policy
      else \<exists>hostname. NSString_initWithBytes_UTF8 api (opt_dns_name opts) = Some hostname
             \<and> SecPolicyCreateSSL api True hostname = Some policy)"
  by (auto simp: Mac_policy_def split: option.split)

text \<open>C40: The Mac OS X verifier accepts a chain exactly when it is not empty, the system makes a certificate
  of each of its elements, in order, and trusts them, for a server with the requested host name if one
  is given and under the basic X.509 policy otherwise, and at the requested time if it is after the epoch; a
  time before the epoch is taken, like 0, for the current one.\<close>

theorem Mac_VerifyChain_accepts:
  "Mac_VerifyChain api chain opts \<longleftrightarrow>
     chain \<noteq> [] \<and>
     (\<exists>policy cs t t'.
        (if opt_dns_name opts = [] then SecPolicyCreateBasicX509 api = Some policy
         else \<exists>hostname. NSString_initWithBytes_UTF8 api (opt_dns_name opts) = Some hostname
                \<and> SecPolicyCreateSSL api True hostname = Some policy)
        \<and> list_all2 (\<lambda>c d. \<exists>der. NSData_dataWithBytes api (content (cert_der c)) = Some der
                             \<and> SecCertificateCreateWithData api der = Some d) chain cs
        \<and> SecTrustCreateWithCertificates api cs policy = (0, Some t)
        \<and> (if 0 < opt_time opts then SecTrustSetVerifyDate api t (opt_time opts) = (0, t') else t' = t)
        \<and> (SecTrustEvaluate api t' = (0, kSecTrustResultProceed) \<or> SecTrustEvaluate api t' = (0, kSecTrustResultUnspecified)))"
  unfolding Mac_VerifyChain_iff Mac_policy_iff sec_certificate_iff by (rule refl)

text \<open>A time before the epoch changes nothing.\<close>

lemma Mac_VerifyChain_early:
  "opt_time opts < 0 \<Longrightarrow> Mac_VerifyChain api chain opts = Mac_VerifyChain api chain (opts\<lparr>opt_time := 0\<rparr>)"
  by (auto simp: Mac_VerifyChain_def Mac_policy_def split: option.split prod.split)

end
