(* ===== verification/UnitTests.thy ===== *)
theory UnitTests
  imports SelfSigned WinVerifier MacVerifier
begin

section \<open>The program's own tests\<close>

text \<open>
  The test cases of the \<open>src/*_test.cpp\<close> files, run on the model: each \<open>TEST\<close> is a definition whose value
  is whether all its expectations hold, or the fault it runs into, and each file is shown to pass. The tests of
  bytes, host names and times are evaluated; those that make certificates hold for every OpenSSL that behaves
  as documented, and so for every name, address and password. The tests that read certificates of
  \<open>testdata\<close> depend on what OpenSSL decodes and are not here. \<open>LoadFile\<close> and \<open>SaveFile\<close> are the
  helpers of \<open>src/mumble_test.cpp\<close>.
\<close>

definition all_pass :: "bool res list \<Rightarrow> bool" where
  "all_pass tests = list_all (\<lambda>t. t = Inr True) tests"

lemma all_pass_simps [simp]:
  "all_pass []" "all_pass (t # ts) \<longleftrightarrow> t = Inr True \<and> all_pass ts"
  by (simp_all add: all_pass_def)

subsection \<open>ByteArray\_test.cpp\<close>

text \<open>The buffer most cases start from: 50 bytes from \<open>malloc\<close>, the first ten set to x.\<close>

definition xbuf :: block where
  "xbuf = Some (replicate 10 (Some CHR ''x'') @ replicate 40 None)"

text \<open>\<open>memset\<close> of the whole array through \<open>Data\<close>, for an array made with a length.\<close>

definition filled :: "bytearray \<Rightarrow> char \<Rightarrow> bytearray res" where
  "filled ba c = Data_write ba 0 (replicate (nat (Length ba)) (Some c))"

definition TakeOwnershipNoCap :: "bool res" where
  "TakeOwnershipNoCap = bindR (ByteArray_buf xbuf 10 (-1)) (\<lambda>b. Inr (Length b = 10 \<and> Capacity b = 10))"

definition TakeOwnershipCap :: "bool res" where
  "TakeOwnershipCap = bindR (ByteArray_buf xbuf 10 50) (\<lambda>b. Inr (Length b = 10 \<and> Capacity b = 50))"

definition TestNull :: "bool res" where
  "TestNull = (let b = ByteArray_null in Inr (IsNull b \<and> Capacity b = 0 \<and> Length b = 0))"

definition Assignment :: "bool res" where
  "Assignment = bindR (ByteArray_buf xbuf 10 50) (\<lambda>b. bindR (ByteArray_assign ByteArray_null b) (\<lambda>_. Inr True))"

definition Slicing :: "bool res" where
  "Slicing = bindR (ByteArray_buf xbuf 10 50) (\<lambda>b. bindR (Slice b 5 (-1)) (\<lambda>lastfive.
     Inr (Length lastfive = 5 \<and> Capacity lastfive = 5
       \<and> take 5 (cells lastfive) = replicate 5 (Some CHR ''x''))))"

definition SlicingContent :: "bool res" where
  "SlicingContent = bindR (ByteArray_buf xbuf 10 50) (\<lambda>b. bindR (Slice b 5 (-1)) (\<lambda>lastfive.
     Inr (Length lastfive = 5 \<and> Capacity lastfive = 5)))"

definition TestEmptyAppend :: "bool res" where
  "TestEmptyAppend = bindR (filled (ByteArray_len 10) CHR ''a'') (\<lambda>a. bindR (Append ByteArray_null a) (\<lambda>b.
     bindR (c_memcmp_eq (ConstData b) (ConstData a) (Length a)) (\<lambda>same.
       Inr (Length a = Length b \<and> same))))"

definition TestTruncate :: "bool res" where
  "TestTruncate = bindR (Truncate (ByteArray_len 10) 0) (\<lambda>b. Inr (Length b = 0 \<and> Capacity b = 10))"

definition TestTruncateGrow :: "bool res" where
  "TestTruncateGrow = bindR (Truncate (ByteArray_len 10) 0) (\<lambda>b. bindR (Truncate b 10) (\<lambda>b.
     Inr (Length b = 10 \<and> Capacity b = 10)))"

text \<open>The case compares the pointers before and after. The model has no addresses: the block is the same as
  long as \<open>realloc\<close>, which alone sets the capacity, has not been called.\<close>

definition TestNoAllocAppend :: "bool res" where
  "TestNoAllocAppend = bindR (Truncate (ByteArray_len 50) 0) (\<lambda>b. bindR (filled (ByteArray_len 10) CHR ''a'') (\<lambda>a.
     bindR (Append b a) (\<lambda>b1. bindR (Append b1 a) (\<lambda>b2. bindR (Append b2 a) (\<lambda>b3.
     bindR (Append b3 a) (\<lambda>b4. bindR (Append b4 a) (\<lambda>b5. Inr (Capacity b5 = Capacity b))))))))"

definition TestEqual :: "bool res" where
  "TestEqual = bindR (filled (ByteArray_len 10) CHR ''a'') (\<lambda>a. bindR (filled (ByteArray_len 10) CHR ''a'') (\<lambda>b.
     bindR (filled (ByteArray_len 10) CHR ''c'') (\<lambda>c.
     bindR (Equal a b) (\<lambda>ab. bindR (Equal b a) (\<lambda>ba. bindR (Equal a c) (\<lambda>ac. bindR (Equal c a) (\<lambda>ca.
       Inr (ab \<and> ba \<and> \<not> ac \<and> \<not> ca))))))))"

definition TestOperatorEqual :: "bool res" where
  "TestOperatorEqual = bindR (filled (ByteArray_len 10) CHR ''a'') (\<lambda>a. bindR (filled (ByteArray_len 10) CHR ''a'') (\<lambda>b.
     bindR (operator_eq a b) (\<lambda>ab. bindR (operator_eq b a) (\<lambda>ba. Inr (ab \<and> ba)))))"

definition TestNullEqual :: "bool res" where
  "TestNullEqual = operator_eq ByteArray_null ByteArray_null"

definition TestEmptyEqual :: "bool res" where
  "TestEmptyEqual = bindR (Truncate (ByteArray_len 1) 0) (\<lambda>empty1. bindR (Truncate (ByteArray_len 1) 0) (\<lambda>empty2.
     operator_eq empty1 empty2))"

definition TestEqualNullEmpty :: "bool res" where
  "TestEqualNullEmpty = bindR (Truncate (ByteArray_len 10) 0) (\<lambda>empty1. operator_ne ByteArray_null empty1)"

definition TestEqualCapIndifference :: "bool res" where
  "TestEqualCapIndifference = bindR (Truncate (ByteArray_len 15) 10) (\<lambda>a. bindR (filled a CHR ''a'') (\<lambda>a.
     bindR (filled (ByteArray_len 10) CHR ''a'') (\<lambda>b. operator_eq a b)))"

text \<open>The literal is followed by its terminator.\<close>

definition ConstructorCapLessThanLen :: "bool res" where
  "ConstructorCapLessThanLen =
     bindR (ByteArray_buf (Some (map Some (''hello, world!'' @ [CHR 0x00]))) (int (length ''hello, world!'')) 4)
       (\<lambda>hw. Inr (IsNull hw))"

definition ByteArrayTest :: "bool res list" where
  "ByteArrayTest = [TakeOwnershipNoCap, TakeOwnershipCap, TestNull, Assignment, Slicing, SlicingContent,
     TestEmptyAppend, TestTruncate, TestTruncateGrow, TestNoAllocAppend, TestEqual, TestOperatorEqual,
     TestNullEqual, TestEmptyEqual, TestEqualNullEmpty, TestEqualCapIndifference, ConstructorCapLessThanLen]"

lemma ByteArrayTest_passes: "all_pass ByteArrayTest"
  by code_simp

subsection \<open>X509HostnameVerifier\_test.cpp\<close>

definition WildcardMatch :: "bool res" where
  "WildcardMatch = Inr (HostnameExprMatch ''*.google.com'' ''www.google.com'')"

definition WildcardMismatch :: "bool res" where
  "WildcardMismatch = Inr (\<not> HostnameExprMatch ''*.example.com'' ''a.b.example.com'')"

definition GlobWildcardDisallowed :: "bool res" where
  "GlobWildcardDisallowed = Inr (\<not> HostnameExprMatch ''w*.google.com'' ''www.google.com'')"

definition MultiWildcardMatch :: "bool res" where
  "MultiWildcardMatch = Inr (HostnameExprMatch ''*.*.example.com'' ''a.b.example.com'')"

definition FQDNMismatch :: "bool res" where
  "FQDNMismatch = Inr (\<not> HostnameExprMatch ''*.google.com.'' ''www.google.com'')"

definition HostVectorSize :: "bool res" where
  "HostVectorSize = Inr (length (LowerCaseHostnameVector ''*.google.com'') = 3
     \<and> length (LowerCaseHostnameVector ''a.b.example.com'') = 4)"

text \<open>\<open>std::equal\<close> compares the expected elements, here all there are.\<close>

definition HostVectorLowerCase :: "bool res" where
  "HostVectorLowerCase = Inr (LowerCaseHostnameVector ''*.GooGlE.CoM'' = [''*'', ''google'', ''com''])"

definition HostVectorLowerCaseComprehensive :: "bool res" where
  "HostVectorLowerCaseComprehensive =
     Inr (LowerCaseHostnameVector ''ABCDEFGHIJKLMOPQRSTUVWXYZ'' = [''abcdefghijklmopqrstuvwxyz''])"

definition X509HostnameVerifierTest :: "bool res list" where
  "X509HostnameVerifierTest = [WildcardMatch, WildcardMismatch, GlobWildcardDisallowed, MultiWildcardMatch,
     FQDNMismatch, HostVectorSize, HostVectorLowerCase, HostVectorLowerCaseComprehensive]"

lemma X509HostnameVerifierTest_passes: "all_pass X509HostnameVerifierTest"
  by code_simp

subsection \<open>Compat\_win\_test.cpp and Compat\_android\_test.cpp\<close>

text \<open>A zeroed \<open>tm\<close> with the six fields set.\<close>

definition tm_set :: "int \<Rightarrow> int \<Rightarrow> int \<Rightarrow> int \<Rightarrow> int \<Rightarrow> int \<Rightarrow> tm" where
  "tm_set mday mon year hour minute sec = tm_zero\<lparr>tm_mday := mday, tm_mon := mon, tm_year := year,
     tm_hour := hour, tm_min := minute, tm_sec := sec\<rparr>"

definition InvalidStrptimeFormat :: "bool res" where
  "InvalidStrptimeFormat = Inr (strptime_win ''20121224'' ''%Y%m%d'' (Some tm_zero) = None)"

definition ValidStrptimeFormat :: "bool res" where
  "ValidStrptimeFormat =
     (case strptime_win ''20130217181920'' ''%Y%m%d%H%M%S'' (Some tm_zero) of
        None \<Rightarrow> Inr False
      | Some tm \<Rightarrow> Inr (tm_year tm = 2013 - 1900 \<and> tm_mon tm = 1 \<and> tm_mday tm = 17 \<and> tm_hour tm = 18
          \<and> tm_min tm = 19 \<and> tm_sec tm = 20 \<and> tm_isdst tm = 0 \<and> tm_wday tm = 0 \<and> tm_yday tm = 0))"

text \<open>\<open>_mkgmtime\<close> as its documentation says: -1 for a time before the epoch.\<close>

definition mkgmtime :: "tm \<Rightarrow> int" where
  "mkgmtime tm = (if timegm_posix tm < 0 then -1 else timegm_posix tm)"

definition TimeGmConversion :: "bool res" where
  "TimeGmConversion = Inr (timegm_win mkgmtime (tm_set 1 0 70 0 0 0) = 0
     \<and> timegm_win mkgmtime (tm_set 1 0 80 0 0 0) = 315532800
     \<and> timegm_win mkgmtime (tm_set 1 0 90 0 0 0) = 631152000
     \<and> timegm_win mkgmtime (tm_set 1 0 100 0 0 0) = 946684800
     \<and> timegm_win mkgmtime (tm_set 19 0 138 3 14 7) = 2147483647
     \<and> timegm_win mkgmtime (tm_set 13 11 1 20 45 53) = -1
     \<and> timegm_win mkgmtime (tm_set 13 11 1 20 45 52) = -1)"

text \<open>The two cases on \<open>timegm64\<close> alone test the bundled library and are left out.\<close>

definition TestCompatTimeGM :: "bool res" where
  "TestCompatTimeGM = Inr (timegm_android timegm_posix (tm_set 1 0 70 0 0 0) = 0
     \<and> timegm_android timegm_posix (tm_set 1 0 80 0 0 0) = 315532800
     \<and> timegm_android timegm_posix (tm_set 1 0 90 0 0 0) = 631152000
     \<and> timegm_android timegm_posix (tm_set 1 0 100 0 0 0) = 946684800
     \<and> timegm_android timegm_posix (tm_set 19 0 138 3 14 7) = 2147483647
     \<and> timegm_android timegm_posix (tm_set 19 0 138 3 14 8) = INT32_MIN
     \<and> timegm_android timegm_posix (tm_set 19 0 138 3 14 9) = INT32_MIN
     \<and> timegm_android timegm_posix (tm_set 13 11 1 20 45 53) = -2147483647
     \<and> timegm_android timegm_posix (tm_set 13 11 1 20 45 52) = INT32_MIN
     \<and> timegm_android timegm_posix (tm_set 13 11 1 20 45 51) = INT32_MIN
     \<and> timegm_android timegm_posix (tm_set 13 11 1 20 45 50) = INT32_MIN)"

lemma CompatTest_passes:
  "all_pass [InvalidStrptimeFormat, ValidStrptimeFormat, TimeGmConversion, TestCompatTimeGM]"
  by code_simp

subsection \<open>The helpers of mumble\_test.cpp\<close>

text \<open>\<open>LoadFile\<close>, except on iOS, reads as the verifiers read their bundles.\<close>

definition LoadFile :: "files \<Rightarrow> string \<Rightarrow> bytearray res" where
  "LoadFile fs path =
     (case fs path of
        None \<Rightarrow> read_chunks False [] ByteArray_null
      | Some bytes \<Rightarrow> read_chunks True bytes ByteArray_null)"

text \<open>
  \<open>SaveFile\<close>, where \<open>opens\<close> is whether the file can be opened for writing and \<open>good\<close> whether the write and
  the flush succeed. When it does not open, \<open>ok\<close> is returned without having been assigned.
\<close>

definition SaveFile :: "bool \<Rightarrow> bool \<Rightarrow> files \<Rightarrow> string \<Rightarrow> bytearray \<Rightarrow> (bool \<times> files) res" where
  "SaveFile opens good fs path ba =
     (if opens then Inr (good, if good then fs(path := Some (content ba)) else fs) else Inl Uninit)"

text \<open>What was saved loads again with the same content.\<close>

lemma LoadFile_SaveFile:
  assumes "ba_wf ba" "SaveFile True True fs path ba = Inr (True, fs')"
  shows "\<exists>r. LoadFile fs' path = Inr r \<and> ba_wf r \<and> content r = content ba"
proof -
  have "int (length (content ba)) \<le> INT_MAX" using length_content [OF assms(1)] assms(1) by (simp add: ba_wf_def)
  then show ?thesis using read_chunks_file [of "content ba"] assms(2) by (auto simp: SaveFile_def LoadFile_def)
qed

lemma SaveFile_unopened: "SaveFile False good fs path ba = Inl Uninit"
  by (simp add: SaveFile_def)

subsection \<open>X509Certificate\_test.cpp\<close>

definition TestSelfSignedGeneration :: "'h x509_api \<Rightarrow> bool res" where
  "TestSelfSignedGeneration api =
     (let name = ''John Doe''; email = ''john@example.com''
      in bindR (GenerateSelfSignedCertificate api name email) (\<lambda>cert.
           Inr (name = CommonName cert \<and> email = EmailAddress cert \<and> IsSignedBy api cert cert)))"

definition TestSelfSignedDefaultArgs :: "'h x509_api \<Rightarrow> bool res" where
  "TestSelfSignedDefaultArgs api =
     bindR (GenerateSelfSignedCertificate api [] []) (\<lambda>cert.
       Inr (''Mumble User'' = CommonName cert \<and> [] = EmailAddress cert \<and> IsSignedBy api cert cert))"

text \<open>The two cases of the export of a new certificate differ in their password.\<close>

definition TestExportPKCS12 :: "'h x509_api \<Rightarrow> string \<Rightarrow> bool res" where
  "TestExportPKCS12 api password =
     (let name = ''John Doe''; email = ''john@example.com''
      in bindR (GenerateSelfSignedCertificate api name email) (\<lambda>leaf.
         bindR (ExportCertificateChainAsPKCS12 api [leaf] password) (\<lambda>pkcs12.
           if \<not> Length pkcs12 > 0 then Inr False
           else bindR (FromPKCS12 api pkcs12 password) (\<lambda>import_chain.
             if length import_chain \<noteq> 1 then Inr False
             else Inr (name = CommonName (import_chain ! 0) \<and> email = EmailAddress (import_chain ! 0)
               \<and> IsSignedBy api (import_chain ! 0) (import_chain ! 0))))))"

lemma TestSelfSigned_passes:
  assumes "x509_codec api certs keys" "ext_documented api alts ''john@example.com''" "ext_documented api alts []"
    and "k = RSA_generate_key api 2048 RSA_F4" "\<And>name email. signs api certs alts (self_signed_build api name email k) k"
  shows "all_pass [TestSelfSignedGeneration api, TestSelfSignedDefaultArgs api]"
proof -
  have x: "X509_sign api (self_signed_build api name email k) k EVP_sha1 \<in> certs" for name email
    using assms(5) by (simp add: signs_def)
  note made = self_signed_cert [OF assms(1,4) refl x] self_signed_says [OF assms(1) _ assms(5) _ _ refl]
  have c: "c_str ''John Doe'' = ''John Doe''" "c_str ''john@example.com'' = ''john@example.com''" "c_str [] = []"
    by (simp_all add: c_str_def)
  show ?thesis
    using assms(2,3) by (simp add: TestSelfSignedGeneration_def TestSelfSignedDefaultArgs_def made c)
qed

lemma TestExportPKCS12_passes:
  assumes "pkcs12_codec api certs keys" "ext_documented api alts ''john@example.com''" "k = RSA_generate_key api 2048 RSA_F4"
    and "signs api certs alts (self_signed_build api ''John Doe'' ''john@example.com'' k) k" "c_str password = password"
    and "PKCS12_create api (if password = [] then None else Some password) ''Mumble Identity'' (Some k)
           (X509_sign api (self_signed_build api ''John Doe'' ''john@example.com'' k) k EVP_sha1) [] = Some p"
    and "i2d_PKCS12 api p \<noteq> []"
  shows "TestExportPKCS12 api password = Inr True"
proof -
  define x where "x = X509_sign api (self_signed_build api ''John Doe'' ''john@example.com'' k) k EVP_sha1"
  have codec: "x509_codec api certs keys" by (rule pkcs12_x509 [OF assms(1)])
  have x: "x \<in> certs" "X509_check_private_key api x k > 0"
    using assms(4) signs_own_key(2) [OF assms(4) self_signed_build_fields(5)] by (simp_all add: signs_def x_def)
  have k: "k \<in> keys" using generated_key [OF codec] assms(3) by simp
  have c: "c_str ''John Doe'' = ''John Doe''" "c_str ''john@example.com'' = ''john@example.com''"
    by (simp_all add: c_str_def)
  have "0 < Length (der_ba (i2d_PKCS12 api p))" using assms(7) by (simp add: der_ba_def Length_def)
  then show ?thesis
    using keyed_export [OF assms(1) x(1) k x(2) assms(5) assms(6) [folded x_def]]
    by (simp add: TestExportPKCS12_def self_signed_cert [OF codec assms(3) x_def x(1)]
        self_signed_says [OF codec assms(2,4) c x_def])
qed

subsection \<open>X509Verifier\_test.cpp\<close>

text \<open>The case of the empty chain, with each system's verifier. The case leaves the time of its options
  uninitialised: it is any time.\<close>

definition TestEmptyChain ::
    "('h, 'z) pem_api_scheme \<Rightarrow> 'h list \<Rightarrow> ('c, 'n) win_api \<Rightarrow> ('m, 'p, 'd, 't) mac_api \<Rightarrow> int \<Rightarrow> bool res list" where
  "TestEmptyChain api store win mac time =
     (let opts = \<lparr>opt_dns_name = [], opt_time = time\<rparr>
      in [Inr (\<not> VerifyChain api store [] opts), bindR (VerifyChain_win win [] opts) (\<lambda>b. Inr (\<not> b)),
          Inr (\<not> VerifyChain_mac mac [] opts)])"

lemma TestEmptyChain_passes: "all_pass (TestEmptyChain api store win mac time)"
  by (simp add: TestEmptyChain_def Let_def VerifyChain_def PEM_VerifyChain_def VerifyChain_win_def
      Win_VerifyChain_def VerifyChain_mac_def Mac_VerifyChain_def)

end
