(* ===== verification/Spec2Isabelle.thy ===== *)
theory Spec2Isabelle
  imports TLSDelivery TLSReconnect Demo UnitTests
begin

text \<open>
  A model of libmumble, the C++ library for Mumble clients: byte buffers, errors, X.509
  certificates and their verification, and TLS connections over libuv and OpenSSL. Paths are
  those below the directories \<open>src\<close> and \<open>include/mumble\<close> of the repository.

  \<^bold>\<open>The program.\<close> \<open>ByteArray\<close> carries all data. \<open>Error\<close> values come from libuv, OpenSSL or the
  library itself. \<open>X509Certificate\<close> decodes, generates, exports and imports certificates through
  OpenSSL; the verifiers (PEM files, the system's on Unix, Android, Windows and Mac OS X) judge
  chains of them, with \<open>X509HostnameVerifier\<close> for names. \<open>TLSConnection\<close> runs a libuv loop in a
  thread: what arrives on the socket is queued in \<open>UVBioState\<close>, from where OpenSSL reads it through
  a BIO; what OpenSSL decrypts goes to the user's handlers.

  \<^bold>\<open>Theories.\<close>
  \<^item> \<open>Prelude\<close>: faults, the result type \<open>res\<close> and its sequencing \<open>bindR\<close>, the C \<open>int\<close>, the collection
    \<open>result_simps\<close>, and the locale \<open>simulation\<close> of a state machine that implements an abstract one.
  \<^item> \<open>CMem\<close>: blocks of C memory with \<open>malloc\<close>, \<open>realloc\<close>, \<open>memcpy\<close>, \<open>memcmp\<close>; an access outside a
    block is a fault.
  \<^item> \<open>ByteArrays\<close>: \<open>ByteArray.cpp\<close>. The record has the three members; \<open>content\<close> is what an array
    denotes, \<open>ba_wf\<close> the invariant. Shown: every obtainable array satisfies it, \<open>Append\<close> concatenates,
    also an array to itself, \<open>Equal\<close> decides, and what \<open>Slice\<close> does on each of its branches.
  \<^item> \<open>Errors\<close>: \<open>Error.cpp\<close>, \<open>UVUtils.cpp\<close>, \<open>OpenSSLUtils.cpp\<close>, \<open>Utils.cpp\<close>.
  \<^item> \<open>UVBio\<close>: \<open>UVBio.cpp\<close>. Its contract is the locale \<open>byte_channel\<close> (what goes in comes out, in order),
    extended to \<open>live_channel\<close> (all of it does), both interpreted on the model.
  \<^item> \<open>Asn1Time\<close>: \<open>ParseASN1Time\<close>, with \<open>Compat_win.cpp\<close>, \<open>Compat_android.cpp\<close> and
    \<open>FileTimeFromStdTimeT\<close>. What it needs of \<open>strptime\<close> and \<open>timegm\<close> are the locales \<open>strptime_impl\<close>,
    \<open>timegm_impl\<close> and \<open>time_parser\<close>; the reference is a calendar of days since the epoch.
  \<^item> \<open>Certificates\<close>: \<open>X509Certificate.cpp\<close> and \<open>X509Certificate_p.cpp\<close>, over the record \<open>x509_api\<close> of
    OpenSSL's functions. Shown: a certificate holds what its DER says, PKCS12 export and import are a
    round trip, names parse all or nothing. \<open>SelfSigned\<close> has what these give together: a generated
    certificate survives being exported and imported, and validity is between two dates of the calendar.
  \<^item> \<open>HostMatch\<close>: \<open>X509HostnameVerifier.cpp\<close>. Shown: matching is label by label.
  \<^item> \<open>Verifiers\<close>: \<open>X509PEMVerifier.cpp\<close>, \<open>X509Verifier_unix.cpp\<close>, \<open>X509Verifier_android.cpp\<close>;
    \<open>WinVerifier\<close>: \<open>X509Verifier_win.cpp\<close>; \<open>MacVerifier\<close>: \<open>X509Verifier_mac.mm\<close>.
    Shown: which roots are trusted, and that an accepted chain leads to one of them.
  \<^item> \<open>TLSConn\<close>: \<open>TLSConnection.cpp\<close> and \<open>TLSConnection_p.cpp\<close>, one definition per method and callback
    over the record \<open>tls_conn\<close>; \<open>tls_step\<close> is one event of the loop, \<open>tls_reachable\<close> the states of a
    running connection. \<open>TLSInv\<close> has what OpenSSL documents, the frame of its calls and the effect of
    a shutdown; \<open>TLSFrame\<close> what every operation leaves alone and the branches of the callbacks;
    \<open>TLSSession\<close> the abstract session, the invariant, and one lemma per callback;
    \<open>TLSProperties\<close> the interpretation of \<open>simulation\<close> on the connection and the properties: the
    handles are open exactly while the connection lives, no received byte is lost, the user sees a
    session that opens once, delivers data and ends with one event, callbacks return, and the faults
    that are possible. \<open>TLSTrust\<close>: nothing is reported before the verification handler has approved,
    on the strength of what \<open>OnConnect\<close> sets up, and what happens when that handler disconnects. \<open>TLSDelivery\<close>: the read handler is given all
    the plain text, in order. \<open>TLSQueue\<close>: so is OpenSSL what other threads write, but
    what they write before the session is established may wait for ever. \<open>TLSReconnect\<close>:
    an object that is connected again behaves like a new one.
  \<^item> \<open>Demo\<close>: \<open>demo.cpp\<close>, where the connection, the verifier of Unix, the matching of host names and the
    certificates meet: whom the program talks to, and that it asks once.
  \<^item> \<open>UnitTests\<close>: the \<open>_test.cpp\<close> files. Each test case is a definition, and each is shown to pass.

  \<^bold>\<open>Conventions.\<close> What has no defined continuation in C++ (a failed assertion, an access out of bounds,
  a read of an uninitialised member, \<open>NotReached\<close>, closing a libuv handle twice) is a value of
  \<open>fault\<close>, so a theorem that an operation returns also says that none of these happen. A C \<open>int\<close> is
  an \<open>int\<close> in its range, checked by \<open>c_int\<close>. The only loops that need not end are \<open>AddPEM_loop\<close>
  and \<open>OnRead_loop\<close>, which are partial functions whose value \<open>None\<close> is that they do not; no fuel is
  used. Both are shown to end, the second under \<open>ssl_conserves\<close>: OpenSSL makes no plain text out of
  nothing.

  \<^bold>\<open>Parameters.\<close> OpenSSL, libuv, wincrypt, the Security framework, the C library's time functions, files and directories are
  arguments of the definitions. What is assumed of them are the named predicates \<open>x509_codec\<close> and
  \<open>pkcs12_codec\<close> (encoding and decoding), \<open>ext_documented\<close> and \<open>signs\<close> (what a signed certificate says), \<open>ssl_documented\<close> (the ranges of the results of the
  \<open>SSL_\<close> functions, and that no encoding of a certificate is empty), \<open>ssl_conserves\<close>, \<open>ssl_verifies\<close> (on a
  session made from a context with \<open>SSL_VERIFY_PEER\<close> a handshake succeeds only after a verification has;
  of other sessions nothing), \<open>verify_documented\<close> (a verified certificate leads to one of the store),
  \<open>pem_progress\<close> (the PEM reader consumes what it returns), \<open>files_fit\<close> (a file has no more bytes than
  an \<open>int\<close> counts), \<open>ssl_tracks\<close> and \<open>ssl_records\<close> (OpenSSL's state
  can be extended by the history of its own calls) and \<open>once_law\<close> (of \<open>uv_once\<close>); the order in which
  libuv calls back is \<open>tls_enabled\<close>. Every theorem with a hypothesis is applied at a concrete
  instance.

  \<^bold>\<open>Interaction.\<close> A user's handlers are functions from what has been reported to the calls they make.
  The theorems on the session, its faults and the queue assume that the handler of the chain verification does
  not call \<open>Disconnect\<close>, which runs inside \<open>SSL_connect\<close>; \<open>verify_handler_disconnects\<close> says what happens when
  it does, and \<open>TLSConnection_verified\<close> holds for such handlers too. \<open>tls_reachable\<close>
  is one session of an object; \<open>tls_object\<close> are the objects it can start from, new ones and ones on which
  \<open>Connect\<close> failed, and \<open>TLSConnection_reconnects\<close> reduces the next session of an object to that of a new
  one.

  \<^bold>\<open>Not modelled.\<close> The tests that read certificates of \<open>testdata\<close>, the code protobuf generates below \<open>proto\<close>, and third-party code. Of the modelled files: the
  freeing of memory and reference counts, the mutex of the write queue (each of its critical
  sections is one step, as is \<open>Write\<close> from another thread with its test of the thread and its wake-up, so
  that its races with the end of the thread are left out), the lifetime of the buffers given to
  \<open>uv_write\<close> (their bytes are taken at the call, although the source hands over OpenSSL's own memory),
  failures to allocate or to generate a key, the method table of the BIO, and the address of \<open>Connect\<close>. Of
  OpenSSL's context the record \<open>ssl_ctx\<close> has what \<open>OnConnect\<close> sets: the method, the verification flags,
  the callback and the store. The callback is called only if it was set there, otherwise OpenSSL's own
  verification against that store decides.
\<close>

end
